theory Spec2Isabelle
  imports Main "HOL-Library.Char_ord" "HOL-Library.List_Lexorder"
begin

section \<open>Library functions the crawler calls\<close>

text \<open>
  The crawler calls \<^verbatim>\<open>urllib.parse.urlparse\<close>, \<^verbatim>\<open>fnmatch.fnmatch\<close> and
  \<^verbatim>\<open>re.match\<close> of the Python standard library. They are not code of this repository,
  so the model takes them as parameters, bundled in one record: every theorem below holds
  for whatever these functions compute. \<open>re_match\<close> returns \<open>None\<close> where
  \<^verbatim>\<open>re.match\<close> raises \<^verbatim>\<open>re.error\<close>.
\<close>

record pylib =
  netloc :: "string \<Rightarrow> string"
  url_path :: "string \<Rightarrow> string"
  fnmatch :: "string \<Rightarrow> string \<Rightarrow> bool"
  re_match :: "string \<Rightarrow> string \<Rightarrow> bool option"

subsection \<open>String methods\<close>

text \<open>\<^verbatim>\<open>str.lower\<close> on the ASCII letters; other characters are left as they are.\<close>

definition lower_char :: "char \<Rightarrow> char" where
  "lower_char c =
     (let n = (of_char c :: nat) in if 65 \<le> n \<and> n \<le> 90 then char_of (n + 32) else c)"

definition lower :: "string \<Rightarrow> string" where
  "lower s = map lower_char s"

text \<open>\<^verbatim>\<open>s.lstrip('.')\<close>\<close>

definition lstrip_dot :: "string \<Rightarrow> string" where
  "lstrip_dot s = dropWhile (\<lambda>c. c = CHR ''.'') s"

text \<open>\<^verbatim>\<open>s.startswith(p)\<close> and \<^verbatim>\<open>s.endswith(p)\<close>\<close>

definition startswith :: "string \<Rightarrow> string \<Rightarrow> bool" where
  "startswith s p = (take (length p) s = p)"

definition endswith :: "string \<Rightarrow> string \<Rightarrow> bool" where
  "endswith s p = (length p \<le> length s \<and> drop (length s - length p) s = p)"

text \<open>\<^verbatim>\<open>p in s\<close> on strings: \<open>p\<close> occurs in \<open>s\<close> as a contiguous run.\<close>

fun str_in :: "string \<Rightarrow> string \<Rightarrow> bool" where
  "str_in p [] = (p = [])"
| "str_in p (c # cs) = (startswith (c # cs) p \<or> str_in p cs)"

section \<open>filters.py\<close>

record URLFilter =
  include_patterns :: "string list"
  exclude_patterns :: "string list"
  skip_extensions :: "string list"

text \<open>
  \<^verbatim>\<open>URLFilter.__init__\<close>: a missing list is the empty list, and each extension is
  lower-cased and loses its leading dots.
\<close>

definition URLFilter_init ::
  "string list option \<Rightarrow> string list option \<Rightarrow> string list option \<Rightarrow> URLFilter" where
  "URLFilter_init inc exc exts =
     \<lparr> include_patterns = (case inc of None \<Rightarrow> [] | Some ps \<Rightarrow> ps),
       exclude_patterns = (case exc of None \<Rightarrow> [] | Some ps \<Rightarrow> ps),
       skip_extensions =
         map (\<lambda>ext. lstrip_dot (lower ext)) (case exts of None \<Rightarrow> [] | Some es \<Rightarrow> es) \<rparr>"

text \<open>
  \<^verbatim>\<open>URLFilter._match_pattern\<close>: a pattern with \<open>*\<close> or \<open>?\<close> is a glob; one that
  starts with \<open>^\<close>, ends with \<open>$\<close> or has a \<open>[\<close> is a regular expression, and an invalid
  one matches nothing; any other pattern matches when it occurs in the URL.
\<close>

definition match_pattern :: "pylib \<Rightarrow> string \<Rightarrow> string \<Rightarrow> bool" where
  "match_pattern L url pattern =
     (if CHR ''*'' \<in> set pattern \<or> CHR ''?'' \<in> set pattern then fnmatch L url pattern
      else if startswith pattern ''^'' \<or> endswith pattern ''$'' \<or> CHR ''['' \<in> set pattern
        then (case re_match L pattern url of Some b \<Rightarrow> b | None \<Rightarrow> False)
      else str_in pattern url)"

text \<open>\<^verbatim>\<open>URLFilter.should_crawl\<close>\<close>

definition URLFilter_should_crawl :: "pylib \<Rightarrow> URLFilter \<Rightarrow> string \<Rightarrow> bool" where
  "URLFilter_should_crawl L f url =
     (if skip_extensions f \<noteq> [] \<and>
         list_ex (\<lambda>ext. endswith (lower (url_path L url)) (CHR ''.'' # ext)) (skip_extensions f)
      then False
      else if include_patterns f \<noteq> [] \<and>
              \<not> list_ex (match_pattern L url) (include_patterns f)
      then False
      else if exclude_patterns f \<noteq> [] \<and> list_ex (match_pattern L url) (exclude_patterns f)
      then False
      else True)"

text \<open>
  \<^verbatim>\<open>DomainFilter\<close>: the allowed domains are a Python set; membership and the
  subdomain loop do not depend on its order, so a list stands for it.
\<close>

record DomainFilter =
  allowed_domains :: "string list"

definition DomainFilter_should_crawl :: "pylib \<Rightarrow> DomainFilter \<Rightarrow> string \<Rightarrow> bool" where
  "DomainFilter_should_crawl L f url =
     (if allowed_domains f = [] then True
      else let domain = netloc L url in
        if domain \<in> set (allowed_domains f) then True
        else if list_ex (\<lambda>allowed. endswith domain (CHR ''.'' # allowed)) (allowed_domains f)
          then True
        else False)"

record CombinedFilter =
  cf_url_filter :: "URLFilter option"
  cf_domain_filter :: "DomainFilter option"

definition CombinedFilter_should_crawl :: "pylib \<Rightarrow> CombinedFilter \<Rightarrow> string \<Rightarrow> bool" where
  "CombinedFilter_should_crawl L f url =
     (if (case cf_domain_filter f of None \<Rightarrow> False
          | Some d \<Rightarrow> \<not> DomainFilter_should_crawl L d url) then False
      else if (case cf_url_filter f of None \<Rightarrow> False
          | Some u \<Rightarrow> \<not> URLFilter_should_crawl L u url) then False
      else True)"

section \<open>scheduler.py\<close>

record Scheduler =
  max_depth :: int
  follow_external :: bool
  url_filter :: "CombinedFilter option"
  queue :: "(string \<times> int) list"
  visited :: "string set"
  filtered :: "string set"
  start_domain :: "string option"

text \<open>\<^verbatim>\<open>Scheduler.__init__\<close>\<close>

definition Scheduler_init :: "int \<Rightarrow> bool \<Rightarrow> CombinedFilter option \<Rightarrow> Scheduler" where
  "Scheduler_init md fe uf =
     \<lparr> max_depth = md, follow_external = fe, url_filter = uf,
       queue = [], visited = {}, filtered = {}, start_domain = None \<rparr>"

text \<open>
  \<^verbatim>\<open>Scheduler.add\<close>. The body runs under the scheduler's lock, so it is one atomic
  step on the scheduler state. Each \<^verbatim>\<open>return\<close> of the source is one branch.
\<close>

definition set_start_domain :: "pylib \<Rightarrow> Scheduler \<Rightarrow> string \<Rightarrow> Scheduler" where
  "set_start_domain L s url =
     (case start_domain s of
        None \<Rightarrow> s\<lparr>start_domain := Some (netloc L url)\<rparr>
      | Some _ \<Rightarrow> s)"

definition filter_rejects :: "pylib \<Rightarrow> Scheduler \<Rightarrow> string \<Rightarrow> bool" where
  "filter_rejects L s url =
     (case url_filter s of None \<Rightarrow> False | Some f \<Rightarrow> \<not> CombinedFilter_should_crawl L f url)"

definition add :: "pylib \<Rightarrow> Scheduler \<Rightarrow> string \<Rightarrow> int \<Rightarrow> Scheduler" where
  "add L s url depth =
     (let s1 = set_start_domain L s url in
      if url \<in> visited s1 then s1
      else if depth > max_depth s1 then s1
      else if \<not> follow_external s1 \<and> Some (netloc L url) \<noteq> start_domain s1 then s1
      else if filter_rejects L s1 url then s1\<lparr>filtered := insert url (filtered s1)\<rparr>
      else s1\<lparr>visited := insert url (visited s1), queue := queue s1 @ [(url, depth)]\<rparr>)"

text \<open>\<^verbatim>\<open>Scheduler.get\<close>: pop the front of the queue, or \<open>None\<close> when it is empty.\<close>

definition get :: "Scheduler \<Rightarrow> (string \<times> int) option \<times> Scheduler" where
  "get s = (case queue s of [] \<Rightarrow> (None, s) | x # xs \<Rightarrow> (Some x, s\<lparr>queue := xs\<rparr>))"

definition is_empty :: "Scheduler \<Rightarrow> bool" where
  "is_empty s = (length (queue s) = 0)"

text \<open>A sequence of \<^verbatim>\<open>add\<close> calls, in order.\<close>

fun add_all :: "pylib \<Rightarrow> Scheduler \<Rightarrow> (string \<times> int) list \<Rightarrow> Scheduler" where
  "add_all L s [] = s"
| "add_all L s ((url, depth) # rest) = add_all L (add L s url depth) rest"

text \<open>The depth bound on the queue: no entry is deeper than \<open>max_depth\<close>.\<close>

definition queue_within_depth :: "Scheduler \<Rightarrow> bool" where
  "queue_within_depth s = list_all (\<lambda>(url, depth). depth \<le> max_depth s) (queue s)"

section \<open>models.py\<close>

text \<open>
  \<^verbatim>\<open>Page\<close> and \<^verbatim>\<open>CrawlConfig\<close>. A timestamp is kept as its ISO text, the form in
  which it is written to the checkpoint. \<^verbatim>\<open>CrawlConfig\<close> validates \<open>max_depth \<ge> 0\<close>,
  \<open>max_pages \<ge> 1\<close>, \<open>1 \<le> max_concurrency \<le> 100\<close> and \<open>timeout \<ge> 1\<close>.
\<close>

record Page =
  page_url :: string
  page_title :: "string option"
  page_text :: "string option"
  page_html :: "string option"
  page_links :: "string list"
  page_metadata :: "(string \<times> string) list"
  page_crawled_at :: string
  page_status_code :: int
  page_depth :: int

record CrawlConfig =
  cfg_max_depth :: int
  cfg_max_pages :: int
  cfg_max_concurrency :: int
  cfg_respect_robots :: bool
  cfg_user_agent :: string
  cfg_timeout :: int
  cfg_follow_external :: bool
  cfg_extract_text :: bool
  cfg_save_html :: bool

definition CrawlConfig_valid :: "CrawlConfig \<Rightarrow> bool" where
  "CrawlConfig_valid cfg =
     (0 \<le> cfg_max_depth cfg \<and> 1 \<le> cfg_max_pages cfg \<and> 1 \<le> cfg_max_concurrency cfg
      \<and> cfg_max_concurrency cfg \<le> 100 \<and> 1 \<le> cfg_timeout cfg)"

definition CrawlConfig_default :: CrawlConfig where
  "CrawlConfig_default =
     \<lparr> cfg_max_depth = 1, cfg_max_pages = 100, cfg_max_concurrency = 10,
       cfg_respect_robots = True,
       cfg_user_agent = ''yoink/0.3.0 (+https://github.com/ErikkJs/yoink)'',
       cfg_timeout = 30, cfg_follow_external = False, cfg_extract_text = True,
       cfg_save_html = False \<rparr>"

section \<open>JSON values and the libraries of the checkpoint\<close>

text \<open>
  What \<^verbatim>\<open>json.loads\<close> returns. An object is the list of its keys and values in
  order, as a Python dict keeps them. A number with a fraction or an exponent is kept as
  its literal.
\<close>

datatype json =
    JNull
  | JBool bool
  | JInt int
  | JFloat string
  | JStr string
  | JArr "json list"
  | JObj "(string \<times> json) list"

text \<open>
  The library calls of \<^verbatim>\<open>checkpoint.py\<close> and of the resume path, as parameters:
  \<^item> \<open>json_dumps\<close> is \<^verbatim>\<open>json.dumps\<close>;
  \<^item> \<open>json_loads\<close> is \<^verbatim>\<open>json.loads\<close>, \<open>None\<close> where it raises;
  \<^item> \<open>Page_validate\<close> is pydantic's \<^verbatim>\<open>Page(**page_data)\<close>, \<open>None\<close> where it raises;
  \<^item> \<open>set_list\<close> is \<^verbatim>\<open>list(a_set)\<close>: the order in which Python iterates a set.
\<close>

record serde =
  json_dumps :: "json \<Rightarrow> string"
  json_loads :: "string \<Rightarrow> json option"
  Page_validate :: "(string \<times> json) list \<Rightarrow> Page option"
  set_list :: "string set \<Rightarrow> string list"

text \<open>\<^verbatim>\<open>config.model_dump()\<close> and \<^verbatim>\<open>page.model_dump(mode="json")\<close>: the fields in
  the order of their declaration.\<close>

definition json_opt :: "string option \<Rightarrow> json" where
  "json_opt x = (case x of None \<Rightarrow> JNull | Some s \<Rightarrow> JStr s)"

definition config_dump :: "CrawlConfig \<Rightarrow> json" where
  "config_dump cfg =
     JObj [(''max_depth'', JInt (cfg_max_depth cfg)), (''max_pages'', JInt (cfg_max_pages cfg)),
           (''max_concurrency'', JInt (cfg_max_concurrency cfg)),
           (''respect_robots'', JBool (cfg_respect_robots cfg)),
           (''user_agent'', JStr (cfg_user_agent cfg)), (''timeout'', JInt (cfg_timeout cfg)),
           (''follow_external'', JBool (cfg_follow_external cfg)),
           (''extract_text'', JBool (cfg_extract_text cfg)),
           (''save_html'', JBool (cfg_save_html cfg))]"

definition page_dump :: "Page \<Rightarrow> (string \<times> json) list" where
  "page_dump p =
     [(''url'', JStr (page_url p)), (''title'', json_opt (page_title p)),
      (''text'', json_opt (page_text p)), (''html'', json_opt (page_html p)),
      (''links'', JArr (map JStr (page_links p))),
      (''metadata'', JObj (map (\<lambda>(k, v). (k, JStr v)) (page_metadata p))),
      (''crawled_at'', JStr (page_crawled_at p)),
      (''status_code'', JInt (page_status_code p)), (''depth'', JInt (page_depth p))]"

text \<open>\<^verbatim>\<open>d.get(key)\<close> on a loaded value: only a dict has the method.\<close>

datatype exn =
    JSONDecodeError
  | AttributeError
  | ValidationError
  | TypeError
  | ValueError
  | IndexError
  | ZeroDivisionError
  | UnicodeDecodeError
  | Failure string

definition dict_get :: "json \<Rightarrow> string \<Rightarrow> exn + json option" where
  "dict_get d k = (case d of JObj kvs \<Rightarrow> Inr (map_of kvs k) | _ \<Rightarrow> Inl AttributeError)"

section \<open>storage.py\<close>

text \<open>
  The two backends. A local file is the text on disk (\<open>None\<close>: no such file) and the
  open handle with the text written but not yet flushed (\<open>None\<close>: not open). The S3
  backend is the stored object (\<open>None\<close>: no such key) and the buffered writes.

  A file or an object can also hold bytes that are not UTF-8 text: \<open>GarbledFile\<close>, with
  the handle as before, and \<open>GarbledObject\<close>, with the buffered writes. Text appended to
  such a file leaves it what it is. Reading it raises \<^verbatim>\<open>UnicodeDecodeError\<close>: the local
  backend while it iterates the lines, the S3 backend in \<^verbatim>\<open>content.decode("utf-8")\<close>,
  where it logs the error and raises it again.

  I/O and network errors are not modelled, and neither is the library writing its buffer
  out before a flush: unflushed text is not visible to a reader. The flush of the S3
  backend decodes the object it downloads, so on a garbled object it raises as well and
  leaves object and buffer as they are; the model keeps that state and does not represent
  the exception of the flush.
\<close>

datatype storage =
    LocalFile "string option" "string option"
  | S3 "string option" "string list"
  | GarbledFile "string option"
  | GarbledObject "string list"

definition LocalFileStorage_init :: "string option \<Rightarrow> storage" where
  "LocalFileStorage_init on_disk = LocalFile on_disk None"

definition S3Storage_init :: "string option \<Rightarrow> storage" where
  "S3Storage_init stored = S3 stored []"

fun st_exists :: "storage \<Rightarrow> bool" where
  "st_exists (LocalFile f h) = (f \<noteq> None)"
| "st_exists (S3 obj buf) = (obj \<noteq> None)"
| "st_exists (GarbledFile h) = True"
| "st_exists (GarbledObject buf) = True"

text \<open>\<^verbatim>\<open>write\<close>: the local backend opens the file for appending on the first write,
  which creates it.\<close>

fun st_write :: "storage \<Rightarrow> string \<Rightarrow> storage" where
  "st_write (LocalFile f None) data =
     LocalFile (Some (case f of None \<Rightarrow> [] | Some c \<Rightarrow> c)) (Some data)"
| "st_write (LocalFile f (Some pending)) data = LocalFile f (Some (pending @ data))"
| "st_write (S3 obj buf) data = S3 obj (buf @ [data])"
| "st_write (GarbledFile None) data = GarbledFile (Some data)"
| "st_write (GarbledFile (Some pending)) data = GarbledFile (Some (pending @ data))"
| "st_write (GarbledObject buf) data = GarbledObject (buf @ [data])"

text \<open>\<^verbatim>\<open>flush\<close>: the S3 backend downloads the object, appends the buffer and uploads
  the whole; with an empty buffer it does nothing.\<close>

fun st_flush :: "storage \<Rightarrow> storage" where
  "st_flush (LocalFile f None) = LocalFile f None"
| "st_flush (LocalFile f (Some pending)) =
     LocalFile (Some ((case f of None \<Rightarrow> [] | Some c \<Rightarrow> c) @ pending)) (Some [])"
| "st_flush (S3 obj buf) =
     (if buf = [] then S3 obj buf
      else S3 (Some ((case obj of None \<Rightarrow> [] | Some c \<Rightarrow> c) @ concat buf)) [])"
| "st_flush (GarbledFile None) = GarbledFile None"
| "st_flush (GarbledFile (Some pending)) = GarbledFile (Some [])"
| "st_flush (GarbledObject buf) = GarbledObject buf"

fun st_close :: "storage \<Rightarrow> storage" where
  "st_close (LocalFile f None) = LocalFile f None"
| "st_close (LocalFile f (Some pending)) =
     LocalFile (Some ((case f of None \<Rightarrow> [] | Some c \<Rightarrow> c) @ pending)) None"
| "st_close (S3 obj buf) = (if buf \<noteq> [] then st_flush (S3 obj buf) else S3 obj buf)"
| "st_close (GarbledFile h) = GarbledFile None"
| "st_close (GarbledObject buf) = GarbledObject buf"

text \<open>
  Reading line by line. A text file ends a line at \<open>\n\<close>, \<open>\r\<close> or \<open>\r\n\<close> and hands
  each of them over as \<open>\n\<close>; \<^verbatim>\<open>splitlines(keepends=True)\<close> of the S3 backend also ends
  a line at the other line boundaries and keeps the boundary as it is.
\<close>

definition LF :: char where "LF = CHR 0x0A"
definition CR :: char where "CR = CHR 0x0D"

definition line_boundary :: "char \<Rightarrow> bool" where
  "line_boundary c = (c \<in> set [CHR 0x0A, CHR 0x0B, CHR 0x0C, CHR 0x0D, CHR 0x1C, CHR 0x1D, CHR 0x1E, CHR 0x85])"

fun split_lines :: "bool \<Rightarrow> string \<Rightarrow> string \<Rightarrow> string list" where
  "split_lines text_mode cur [] = (if cur = [] then [] else [cur])"
| "split_lines text_mode cur (c # cs) =
     (if c = CR \<and> cs \<noteq> [] \<and> hd cs = LF
        then (cur @ (if text_mode then [LF] else [CR, LF])) # split_lines text_mode [] (tl cs)
      else if (if text_mode then c = LF \<or> c = CR else line_boundary c)
        then (cur @ [if text_mode then LF else c]) # split_lines text_mode [] cs
      else split_lines text_mode (cur @ [c]) cs)"

text \<open>\<^verbatim>\<open>read\<close>: all the lines, or the exception that ends the iteration.\<close>

fun st_read :: "storage \<Rightarrow> exn + string list" where
  "st_read (LocalFile f h) =
     Inr (case f of None \<Rightarrow> [] | Some c \<Rightarrow> split_lines True [] c)"
| "st_read (S3 obj buf) =
     Inr (case obj of None \<Rightarrow> [] | Some c \<Rightarrow> split_lines False [] c)"
| "st_read (GarbledFile h) = Inl UnicodeDecodeError"
| "st_read (GarbledObject buf) = Inl UnicodeDecodeError"

section \<open>checkpoint.py\<close>

text \<open>
  The manager holds its storage, the flush interval and the page counter. \<open>calls\<close> is
  not a field of the source: it records the calls the manager makes on its storage, in
  order, so that the flushes can be observed.
\<close>

datatype call = Write string | Flush | Close

record CheckpointManager =
  storage :: storage
  flush_interval :: int
  page_count :: int
  calls :: "call list"

definition CheckpointManager_init :: "storage \<Rightarrow> int \<Rightarrow> CheckpointManager" where
  "CheckpointManager_init st k =
     \<lparr> storage = st, flush_interval = k, page_count = 0, calls = [] \<rparr>"

definition storage_write :: "CheckpointManager \<Rightarrow> string \<Rightarrow> CheckpointManager" where
  "storage_write m data =
     m\<lparr>storage := st_write (storage m) data, calls := calls m @ [Write data]\<rparr>"

definition storage_flush :: "CheckpointManager \<Rightarrow> CheckpointManager" where
  "storage_flush m = m\<lparr>storage := st_flush (storage m), calls := calls m @ [Flush]\<rparr>"

definition storage_close :: "CheckpointManager \<Rightarrow> CheckpointManager" where
  "storage_close m = m\<lparr>storage := st_close (storage m), calls := calls m @ [Close]\<rparr>"

text \<open>The three records of the log. \<open>now\<close> is the clock's \<^verbatim>\<open>utcnow().isoformat()\<close>.\<close>

definition metadata_record :: "string \<Rightarrow> CrawlConfig \<Rightarrow> string \<Rightarrow> json" where
  "metadata_record start_url cfg now =
     JObj [(''type'', JStr ''metadata''), (''start_url'', JStr start_url),
           (''config'', config_dump cfg), (''started_at'', JStr now)]"

definition page_record :: "Page \<Rightarrow> json" where
  "page_record p = JObj ((''type'', JStr ''page'') # page_dump p)"

definition state_record ::
  "serde \<Rightarrow> string set \<Rightarrow> (string \<times> int) list \<Rightarrow> string set \<Rightarrow> string \<Rightarrow> json" where
  "state_record S vis q filt now =
     JObj [(''type'', JStr ''state''), (''visited'', JArr (map JStr (set_list S vis))),
           (''queue'', JArr (map (\<lambda>(u, d). JArr [JStr u, JInt d]) q)),
           (''filtered'', JArr (map JStr (set_list S filt))), (''saved_at'', JStr now)]"

definition write_metadata ::
  "serde \<Rightarrow> CheckpointManager \<Rightarrow> string \<Rightarrow> CrawlConfig \<Rightarrow> string \<Rightarrow> CheckpointManager" where
  "write_metadata S m start_url cfg now =
     storage_flush (storage_write m (json_dumps S (metadata_record start_url cfg now) @ [LF]))"

text \<open>
  \<^verbatim>\<open>write_page\<close>: the line is written and the counter incremented before the
  remainder is taken, so with a flush interval of 0 the \<^verbatim>\<open>ZeroDivisionError\<close> comes
  after both. Python's \<open>%\<close> takes the sign of the divisor, as \<open>mod\<close> on \<open>int\<close> does.
\<close>

definition write_page ::
  "serde \<Rightarrow> CheckpointManager \<Rightarrow> Page \<Rightarrow> CheckpointManager \<times> exn option" where
  "write_page S m p =
     (let m1 = storage_write m (json_dumps S (page_record p) @ [LF]);
          m2 = m1\<lparr>page_count := page_count m1 + 1\<rparr>
      in if flush_interval m2 = 0 then (m2, Some ZeroDivisionError)
         else if page_count m2 mod flush_interval m2 = 0 then (storage_flush m2, None)
         else (m2, None))"

text \<open>A run of \<^verbatim>\<open>write_page\<close> calls, up to the first that raises.\<close>

fun write_pages ::
  "serde \<Rightarrow> CheckpointManager \<Rightarrow> Page list \<Rightarrow> CheckpointManager \<times> exn option" where
  "write_pages S m [] = (m, None)"
| "write_pages S m (p # ps) =
     (case write_page S m p of
        (m', Some e) \<Rightarrow> (m', Some e)
      | (m', None) \<Rightarrow> write_pages S m' ps)"

definition flush_count :: "call list \<Rightarrow> nat" where
  "flush_count cs = length (filter (\<lambda>c. c = Flush) cs)"

definition page_line :: "serde \<Rightarrow> Page \<Rightarrow> string" where
  "page_line S p = json_dumps S (page_record p) @ [LF]"

text \<open>The storage calls of the \<open>i\<close>-th page written, for flush interval \<open>k\<close>.\<close>

definition page_calls :: "serde \<Rightarrow> int \<Rightarrow> nat \<times> Page \<Rightarrow> call list" where
  "page_calls S k ip =
     Write (page_line S (snd ip)) # (if int (fst ip) mod k = 0 then [Flush] else [])"

definition write_state ::
  "serde \<Rightarrow> CheckpointManager \<Rightarrow> string set \<Rightarrow> (string \<times> int) list \<Rightarrow> string set \<Rightarrow> string
     \<Rightarrow> CheckpointManager" where
  "write_state S m vis q filt now =
     storage_flush (storage_write m (json_dumps S (state_record S vis q filt now) @ [LF]))"

definition close :: "CheckpointManager \<Rightarrow> CheckpointManager" where
  "close m = storage_close (storage_flush m)"

text \<open>\<^verbatim>\<open>str.strip()\<close>: the characters for which \<^verbatim>\<open>str.isspace\<close> holds.\<close>

definition isspace :: "char \<Rightarrow> bool" where
  "isspace c =
     (let n = (of_char c :: nat) in
      (9 \<le> n \<and> n \<le> 13) \<or> (28 \<le> n \<and> n \<le> 32) \<or> n = 133 \<or> n = 160)"

definition strip :: "string \<Rightarrow> string" where
  "strip s = rev (dropWhile isspace (rev (dropWhile isspace s)))"

text \<open>
  \<^verbatim>\<open>load\<close>. \<open>load_record\<close> is the body of the \<^verbatim>\<open>try\<close>: it returns the new
  accumulators, or the exception it raises. Both \<^verbatim>\<open>except\<close> clauses log and go on to
  the next line with the accumulators as they were. The iteration over the lines of the
  storage is outside the \<^verbatim>\<open>try\<close>: an exception of the read ends \<^verbatim>\<open>load\<close> and is
  raised to its caller.
\<close>

record loaded =
  ld_metadata :: "json option"
  ld_pages :: "Page list"
  ld_state :: "json option"

definition loaded_empty :: loaded where
  "loaded_empty = \<lparr> ld_metadata = None, ld_pages = [], ld_state = None \<rparr>"

definition load_record :: "serde \<Rightarrow> string \<Rightarrow> loaded \<Rightarrow> exn + loaded" where
  "load_record S line acc =
     (case json_loads S line of
        None \<Rightarrow> Inl JSONDecodeError
      | Some data \<Rightarrow>
         (case dict_get data ''type'' of
            Inl e \<Rightarrow> Inl e
          | Inr data_type \<Rightarrow>
             if data_type = Some (JStr ''metadata'') then Inr (acc\<lparr>ld_metadata := Some data\<rparr>)
             else if data_type = Some (JStr ''page'') then
               (case data of
                  JObj kvs \<Rightarrow>
                    (case Page_validate S (filter (\<lambda>(k, v). k \<noteq> ''type'') kvs) of
                       None \<Rightarrow> Inl ValidationError
                     | Some p \<Rightarrow> Inr (acc\<lparr>ld_pages := ld_pages acc @ [p]\<rparr>))
                | _ \<Rightarrow> Inl AttributeError)
             else if data_type = Some (JStr ''state'') then Inr (acc\<lparr>ld_state := Some data\<rparr>)
             else Inr acc))"

fun load_lines :: "serde \<Rightarrow> string list \<Rightarrow> loaded \<Rightarrow> loaded" where
  "load_lines S [] acc = acc"
| "load_lines S (line # rest) acc =
     (let stripped = strip line in
      if stripped = [] then load_lines S rest acc
      else (case load_record S stripped acc of
              Inr acc' \<Rightarrow> load_lines S rest acc'
            | Inl e \<Rightarrow> load_lines S rest acc))"

definition load :: "serde \<Rightarrow> CheckpointManager \<Rightarrow> exn + loaded" where
  "load S m =
     (if \<not> st_exists (storage m) then Inr loaded_empty
      else (case st_read (storage m) of
              Inl e \<Rightarrow> Inl e
            | Inr lines \<Rightarrow> Inr (load_lines S lines loaded_empty)))"

subsection \<open>The text a storage holds\<close>

text \<open>
  \<open>stored\<close> is the text a reader of the storage sees (none when there is nothing to
  read or when it does not decode), \<open>pending\<close> the text written but not yet flushed.
  \<open>text_mode\<close> tells the two ways of splitting lines apart.
\<close>

fun stored :: "storage \<Rightarrow> string option" where
  "stored (LocalFile f h) = f"
| "stored (S3 obj buf) = obj"
| "stored (GarbledFile h) = None"
| "stored (GarbledObject buf) = None"

definition stored_text :: "storage \<Rightarrow> string" where
  "stored_text st = (case stored st of None \<Rightarrow> [] | Some c \<Rightarrow> c)"

fun pending :: "storage \<Rightarrow> string" where
  "pending (LocalFile f None) = []"
| "pending (LocalFile f (Some p)) = p"
| "pending (S3 obj buf) = concat buf"
| "pending (GarbledFile None) = []"
| "pending (GarbledFile (Some p)) = p"
| "pending (GarbledObject buf) = concat buf"

fun text_mode :: "storage \<Rightarrow> bool" where
  "text_mode (LocalFile f h) = True"
| "text_mode (S3 obj buf) = False"
| "text_mode (GarbledFile h) = True"
| "text_mode (GarbledObject buf) = False"

text \<open>\<open>decodable\<close>: what the storage holds, if anything, is UTF-8 text.\<close>

fun decodable :: "storage \<Rightarrow> bool" where
  "decodable (LocalFile f h) = True"
| "decodable (S3 obj buf) = True"
| "decodable (GarbledFile h) = False"
| "decodable (GarbledObject buf) = False"

subsection \<open>The replay of the specification\<close>

text \<open>
  These definitions follow the words of the specification, not the code; the properties
  of replay below compare \<^verbatim>\<open>load\<close> with them. A log entry is a tagged record: metadata,
  a page record or a frontier snapshot. \<open>record_of S line\<close> is the well-formed tagged
  record that a line holds: the line, stripped, is a JSON object whose \<open>type\<close> is
  \<open>metadata\<close>, \<open>page\<close> (with the fields of a page) or \<open>state\<close>. Every other line holds
  none: a blank line, text that is not JSON, a JSON value that is not an object, an object
  with another tag or without one, a page record whose fields are not those of a page.
\<close>

datatype entry = Metadata json | PageRecord Page | FrontierSnapshot json

definition record_of :: "serde \<Rightarrow> string \<Rightarrow> entry option" where
  "record_of S line =
     (if strip line = [] then None
      else (case json_loads S (strip line) of
              Some (JObj kvs) \<Rightarrow>
                (case map_of kvs ''type'' of
                   Some (JStr tag) \<Rightarrow>
                     if tag = ''metadata'' then Some (Metadata (JObj kvs))
                     else if tag = ''page'' then
                       map_option PageRecord
                         (Page_validate S (filter (\<lambda>(k, v). k \<noteq> ''type'') kvs))
                     else if tag = ''state'' then Some (FrontierSnapshot (JObj kvs))
                     else None
                 | _ \<Rightarrow> None)
            | _ \<Rightarrow> None))"

definition records :: "serde \<Rightarrow> string list \<Rightarrow> entry list" where
  "records S ls = List.map_filter (record_of S) ls"

text \<open>
  The replay algorithm of the specification: metadata is retained, a page record is
  appended to the ordered list, a snapshot overwrites the current one.
\<close>

fun materialize :: "loaded \<Rightarrow> entry \<Rightarrow> loaded" where
  "materialize acc (Metadata j) = acc\<lparr>ld_metadata := Some j\<rparr>"
| "materialize acc (PageRecord p) = acc\<lparr>ld_pages := ld_pages acc @ [p]\<rparr>"
| "materialize acc (FrontierSnapshot j) = acc\<lparr>ld_state := Some j\<rparr>"

definition replay :: "entry list \<Rightarrow> loaded" where
  "replay es = foldl materialize loaded_empty es"

fun entry_pages :: "entry list \<Rightarrow> Page list" where
  "entry_pages [] = []"
| "entry_pages (PageRecord p # es) = p # entry_pages es"
| "entry_pages (e # es) = entry_pages es"

fun last_snapshot :: "entry list \<Rightarrow> json option" where
  "last_snapshot [] = None"
| "last_snapshot (FrontierSnapshot j # es) =
     (case last_snapshot es of None \<Rightarrow> Some j | Some j' \<Rightarrow> Some j')"
| "last_snapshot (e # es) = last_snapshot es"

fun last_metadata :: "entry list \<Rightarrow> json option" where
  "last_metadata [] = None"
| "last_metadata (Metadata j # es) =
     (case last_metadata es of None \<Rightarrow> Some j | Some j' \<Rightarrow> Some j')"
| "last_metadata (e # es) = last_metadata es"

subsection \<open>Records that survive the round trip\<close>

text \<open>
  \<open>codec_ok S j\<close> is what the round trip needs from the JSON library for the record
  \<open>j\<close>: its text has no line boundary in it, and stripping and reading the written line
  gives \<open>j\<close> back. \<open>page_ok S p\<close> adds that \<^verbatim>\<open>Page\<close> rebuilds \<open>p\<close> from its own dump.
\<close>

definition codec_ok :: "serde \<Rightarrow> json \<Rightarrow> bool" where
  "codec_ok S j =
     (list_all (\<lambda>c. \<not> line_boundary c) (json_dumps S j)
      \<and> strip (json_dumps S j @ [LF]) \<noteq> []
      \<and> json_loads S (strip (json_dumps S j @ [LF])) = Some j)"

definition page_ok :: "serde \<Rightarrow> Page \<Rightarrow> bool" where
  "page_ok S p = (codec_ok S (page_record p) \<and> Page_validate S (page_dump p) = Some p)"

text \<open>A snapshot as \<^verbatim>\<open>write_state\<close> takes it: visited set, queue, filtered set, time.\<close>

type_synonym snapshot = "string set \<times> (string \<times> int) list \<times> string set \<times> string"

definition snapshot_record :: "serde \<Rightarrow> snapshot \<Rightarrow> json" where
  "snapshot_record S sn =
     (case sn of (vis, q, filt, now) \<Rightarrow> state_record S vis q filt now)"

fun write_states :: "serde \<Rightarrow> CheckpointManager \<Rightarrow> snapshot list \<Rightarrow> CheckpointManager" where
  "write_states S m [] = m"
| "write_states S m (sn # rest) =
     write_states S (case sn of (vis, q, filt, now) \<Rightarrow> write_state S m vis q filt now) rest"

text \<open>A whole writing session: the metadata, the pages, then the snapshots.\<close>

definition write_session ::
  "serde \<Rightarrow> CheckpointManager \<Rightarrow> string \<Rightarrow> CrawlConfig \<Rightarrow> string \<Rightarrow> Page list \<Rightarrow> snapshot list
     \<Rightarrow> CheckpointManager \<times> exn option" where
  "write_session S m start_url cfg now ps snaps =
     (case write_pages S (write_metadata S m start_url cfg now) ps of
        (m', Some e) \<Rightarrow> (m', Some e)
      | (m', None) \<Rightarrow> (write_states S m' snaps, None))"

section \<open>crawler.py\<close>

text \<open>
  The fetcher, the parser and the extractor stand behind the worker as functions that
  return their result or the exception they raise; \<open>utcnow\<close> is the clock that stamps a
  new page. \<open>crawl_errors\<close> is the sequence of \<^verbatim>\<open>crawl_error\<close> events the worker logs.
\<close>

record parsed =
  parsed_title :: "string option"
  parsed_links :: "string list"
  parsed_metadata :: "(string \<times> string) list"

record collaborators =
  Fetcher_fetch :: "string \<Rightarrow> exn + (string \<times> int)"
  Parser_parse :: "string \<Rightarrow> string \<Rightarrow> exn + parsed"
  Extractor_extract :: "string \<Rightarrow> string \<Rightarrow> exn + string option"
  utcnow :: string

record Crawler =
  config :: CrawlConfig
  scheduler :: Scheduler
  pages :: "Page list"
  checkpoint_manager :: "CheckpointManager option"
  crawl_errors :: "(string \<times> exn) list"

definition Crawler_init ::
  "CrawlConfig \<Rightarrow> CombinedFilter option \<Rightarrow> CheckpointManager option \<Rightarrow> Crawler" where
  "Crawler_init cfg uf cm =
     \<lparr> config = cfg,
       scheduler = Scheduler_init (cfg_max_depth cfg) (cfg_follow_external cfg) uf,
       pages = [], checkpoint_manager = cm, crawl_errors = [] \<rparr>"

subsection \<open>Resuming\<close>

text \<open>
  \<^verbatim>\<open>state.get(key, [])\<close> as the \<^verbatim>\<open>for\<close> loop iterates it: a list gives its items, a
  string its characters, a dict its keys; nothing else can be iterated.
\<close>

definition state_items :: "json \<Rightarrow> string \<Rightarrow> exn + json list" where
  "state_items st k =
     (case dict_get st k of
        Inl e \<Rightarrow> Inl e
      | Inr None \<Rightarrow> Inr []
      | Inr (Some (JArr xs)) \<Rightarrow> Inr xs
      | Inr (Some (JStr s)) \<Rightarrow> Inr (map (\<lambda>c. JStr [c]) s)
      | Inr (Some (JObj kvs)) \<Rightarrow> Inr (map (\<lambda>(k, v). JStr k) kvs)
      | Inr (Some _) \<Rightarrow> Inl TypeError)"

text \<open>
  The scheduler's sets hold strings and its queue pairs of a string and an integer, as
  the source annotates them. An item of another shape is outside the model; the model
  answers it with the error Python raises for an item it cannot hash or unpack.
\<close>

fun url_items :: "json list \<Rightarrow> exn + string list" where
  "url_items [] = Inr []"
| "url_items (JStr u # rest) =
     (case url_items rest of Inl e \<Rightarrow> Inl e | Inr us \<Rightarrow> Inr (u # us))"
| "url_items (_ # rest) = Inl TypeError"

fun queue_items :: "json list \<Rightarrow> exn + (string \<times> int) list" where
  "queue_items [] = Inr []"
| "queue_items (JArr [JStr u, JInt d] # rest) =
     (case queue_items rest of Inl e \<Rightarrow> Inl e | Inr es \<Rightarrow> Inr ((u, d) # es))"
| "queue_items (_ # rest) = Inl ValueError"

text \<open>
  The branch of \<^verbatim>\<open>_resume_from_checkpoint\<close> that restores a snapshot: the visited and
  filtered URLs are added to the scheduler's sets, the queue entries are appended to its
  queue as they are, and the start domain is taken from the first element of the visited
  set in Python's iteration order, or from the head of the queue when nothing is visited.
\<close>

definition restore_state :: "pylib \<Rightarrow> serde \<Rightarrow> Crawler \<Rightarrow> json \<Rightarrow> exn + Crawler" where
  "restore_state L S c st =
     (case state_items st ''visited'' of Inl e \<Rightarrow> Inl e | Inr vs \<Rightarrow>
      case url_items vs of Inl e \<Rightarrow> Inl e | Inr vurls \<Rightarrow>
      case state_items st ''filtered'' of Inl e \<Rightarrow> Inl e | Inr fs \<Rightarrow>
      case url_items fs of Inl e \<Rightarrow> Inl e | Inr furls \<Rightarrow>
      case state_items st ''queue'' of Inl e \<Rightarrow> Inl e | Inr qs \<Rightarrow>
      case queue_items qs of Inl e \<Rightarrow> Inl e | Inr entries \<Rightarrow>
        (let s = scheduler c;
             s1 = s\<lparr>visited := visited s \<union> set vurls, filtered := filtered s \<union> set furls,
                    queue := queue s @ entries\<rparr>
         in if queue s1 \<noteq> [] \<or> visited s1 \<noteq> {} then
              (if visited s1 \<noteq> {} then
                 (case set_list S (visited s1) of
                    [] \<Rightarrow> Inl IndexError
                  | u # _ \<Rightarrow> Inr (c\<lparr>scheduler := s1\<lparr>start_domain := Some (netloc L u)\<rparr>\<rparr>))
               else
                 (case queue s1 of
                    [] \<Rightarrow> Inl IndexError
                  | (u, d) # _ \<Rightarrow> Inr (c\<lparr>scheduler := s1\<lparr>start_domain := Some (netloc L u)\<rparr>\<rparr>)))
            else Inr (c\<lparr>scheduler := s1\<rparr>)))"

text \<open>The queue entries a snapshot holds, as the restoring loop reads them.\<close>

definition snapshot_queue :: "json \<Rightarrow> (string \<times> int) list" where
  "snapshot_queue st =
     (case state_items st ''queue'' of
        Inl e \<Rightarrow> []
      | Inr qs \<Rightarrow> (case queue_items qs of Inl e \<Rightarrow> [] | Inr entries \<Rightarrow> entries))"

text \<open>Python's truth value of the loaded state: a dict is true unless it is empty.\<close>

definition state_truthy :: "json \<Rightarrow> bool" where
  "state_truthy st =
     (case st of JNull \<Rightarrow> False | JBool b \<Rightarrow> b | JInt i \<Rightarrow> i \<noteq> 0 | JFloat x \<Rightarrow> True
      | JStr s \<Rightarrow> s \<noteq> [] | JArr xs \<Rightarrow> xs \<noteq> [] | JObj kvs \<Rightarrow> kvs \<noteq> [])"

text \<open>
  \<^verbatim>\<open>_resume_from_checkpoint\<close>, for a crawler whose checkpoint manager is \<open>m\<close>. An
  exception of \<^verbatim>\<open>load\<close> is not caught here. A start URL other than the recorded one
  is only logged. Without a snapshot the scheduler is seeded with the start URL at
  depth 0.
\<close>

definition resume_from_checkpoint ::
  "pylib \<Rightarrow> serde \<Rightarrow> Crawler \<Rightarrow> CheckpointManager \<Rightarrow> string \<Rightarrow> exn + Crawler" where
  "resume_from_checkpoint L S c m start_url =
     (case load S m of
        Inl e \<Rightarrow> Inl e
      | Inr checkpoint_data \<Rightarrow>
         (let c1 = c\<lparr>pages := ld_pages checkpoint_data\<rparr>
          in case ld_state checkpoint_data of
               Some st \<Rightarrow>
                 if state_truthy st then restore_state L S c1 st
                 else Inr (c1\<lparr>scheduler := add L (scheduler c1) start_url 0\<rparr>)
             | None \<Rightarrow> Inr (c1\<lparr>scheduler := add L (scheduler c1) start_url 0\<rparr>)))"

text \<open>The start of \<^verbatim>\<open>crawl\<close>, up to the creation of the workers, and its end.\<close>

definition crawl_begin ::
  "pylib \<Rightarrow> serde \<Rightarrow> Crawler \<Rightarrow> string \<Rightarrow> bool \<Rightarrow> string \<Rightarrow> exn + Crawler" where
  "crawl_begin L S c start_url resume now =
     (case checkpoint_manager c of
        Some m \<Rightarrow>
          if resume then resume_from_checkpoint L S c m start_url
          else Inr (c\<lparr>checkpoint_manager := Some (write_metadata S m start_url (config c) now),
                       scheduler := add L (scheduler c) start_url 0\<rparr>)
      | None \<Rightarrow> Inr (c\<lparr>scheduler := add L (scheduler c) start_url 0\<rparr>))"

definition save_checkpoint_state :: "serde \<Rightarrow> Crawler \<Rightarrow> string \<Rightarrow> Crawler" where
  "save_checkpoint_state S c now =
     (case checkpoint_manager c of
        None \<Rightarrow> c
      | Some m \<Rightarrow>
          c\<lparr>checkpoint_manager :=
              Some (write_state S m (visited (scheduler c)) (queue (scheduler c))
                      (filtered (scheduler c)) now)\<rparr>)"

definition crawl_end :: "serde \<Rightarrow> Crawler \<Rightarrow> string \<Rightarrow> Crawler" where
  "crawl_end S c now =
     (case checkpoint_manager c of
        None \<Rightarrow> c
      | Some m \<Rightarrow>
          (case checkpoint_manager (save_checkpoint_state S c now) of
             None \<Rightarrow> c
           | Some m' \<Rightarrow> (save_checkpoint_state S c now)\<lparr>checkpoint_manager := Some (close m')\<rparr>))"

subsection \<open>The worker\<close>

text \<open>
  The body of the worker's \<^verbatim>\<open>try\<close> for one popped \<open>(url, depth)\<close>, with its
  \<^verbatim>\<open>except Exception\<close>: an exception ends the body where it is raised, is logged as a
  \<^verbatim>\<open>crawl_error\<close> and goes no further. What the body wrote before the exception stays
  written.
\<close>

definition log_error :: "Crawler \<Rightarrow> string \<Rightarrow> exn \<Rightarrow> Crawler" where
  "log_error c url e = c\<lparr>crawl_errors := crawl_errors c @ [(url, e)]\<rparr>"

definition add_links :: "pylib \<Rightarrow> Crawler \<Rightarrow> string list \<Rightarrow> int \<Rightarrow> Crawler" where
  "add_links L c ls d = c\<lparr>scheduler := add_all L (scheduler c) (map (\<lambda>l. (l, d + 1)) ls)\<rparr>"

definition process_item ::
  "collaborators \<Rightarrow> pylib \<Rightarrow> serde \<Rightarrow> Crawler \<Rightarrow> string \<Rightarrow> int \<Rightarrow> Crawler" where
  "process_item E L S c url d =
     (case Fetcher_fetch E url of
        Inl e \<Rightarrow> log_error c url e
      | Inr (html, status_code) \<Rightarrow>
         (case Parser_parse E html url of
            Inl e \<Rightarrow> log_error c url e
          | Inr pr \<Rightarrow>
             (case (if cfg_extract_text (config c) then Extractor_extract E html url else Inr None) of
                Inl e \<Rightarrow> log_error c url e
              | Inr txt \<Rightarrow>
                 (let page = \<lparr> page_url = url, page_title = parsed_title pr, page_text = txt,
                               page_html = (if cfg_save_html (config c) then Some html else None),
                               page_links = parsed_links pr,
                               page_metadata = parsed_metadata pr,
                               page_crawled_at = utcnow E, page_status_code = status_code,
                               page_depth = d \<rparr>;
                      c1 = c\<lparr>pages := pages c @ [page]\<rparr>
                  in case checkpoint_manager c1 of
                       None \<Rightarrow> add_links L c1 (parsed_links pr) d
                     | Some m \<Rightarrow>
                        (case write_page S m page of
                           (m', Some e) \<Rightarrow> log_error (c1\<lparr>checkpoint_manager := Some m'\<rparr>) url e
                         | (m', None) \<Rightarrow>
                             add_links L (c1\<lparr>checkpoint_manager := Some m'\<rparr>)
                               (parsed_links pr) d)))))"

text \<open>
  The exception that fetching, parsing or extracting raises for a URL, if one of them
  does: the stages run in this order and the first exception ends them.
\<close>

definition stage_failure :: "collaborators \<Rightarrow> Crawler \<Rightarrow> string \<Rightarrow> exn option" where
  "stage_failure E c url =
     (case Fetcher_fetch E url of
        Inl e \<Rightarrow> Some e
      | Inr (html, status_code) \<Rightarrow>
         (case Parser_parse E html url of
            Inl e \<Rightarrow> Some e
          | Inr pr \<Rightarrow>
             if cfg_extract_text (config c)
             then (case Extractor_extract E html url of Inl e \<Rightarrow> Some e | Inr txt \<Rightarrow> None)
             else None))"

text \<open>
  One turn of the worker's \<^verbatim>\<open>while True\<close>: the flag says whether the loop goes on.
  The loop itself may never end (an empty queue and no page yet), so \<open>worker\<close> runs it on
  fuel and returns \<open>None\<close> when the fuel is used up.
\<close>

definition worker_step ::
  "collaborators \<Rightarrow> pylib \<Rightarrow> serde \<Rightarrow> Crawler \<Rightarrow> bool \<times> Crawler" where
  "worker_step E L S c =
     (if int (length (pages c)) \<ge> cfg_max_pages (config c) then (False, c)
      else (case get (scheduler c) of
              (None, s') \<Rightarrow>
                if is_empty (scheduler c) \<and> length (pages c) > 0 then (False, c) else (True, c)
            | (Some (url, d), s') \<Rightarrow> (True, process_item E L S (c\<lparr>scheduler := s'\<rparr>) url d)))"

fun worker :: "collaborators \<Rightarrow> pylib \<Rightarrow> serde \<Rightarrow> nat \<Rightarrow> Crawler \<Rightarrow> Crawler option" where
  "worker E L S 0 c = None"
| "worker E L S (Suc n) c =
     (case worker_step E L S c of
        (False, c') \<Rightarrow> Some c'
      | (True, c') \<Rightarrow> worker E L S n c')"

section \<open>An instance of the library functions\<close>

text \<open>
  A concrete \<open>pylib\<close>, for evaluating the model on examples. It follows the standard
  library on plain absolute URLs and simple patterns:
  \<^item> \<open>netloc_of\<close> and \<open>path_of\<close> split a URL as \<^verbatim>\<open>urlsplit\<close> does: a scheme of
    letters, digits, \<open>+\<close>, \<open>-\<close> and \<open>.\<close> up to the first colon, then after \<open>//\<close> the
    authority up to the first \<open>/\<close>, \<open>?\<close> or \<open>#\<close>, then the path up to \<open>?\<close> or \<open>#\<close>;
  \<^item> \<open>glob\<close> is \<^verbatim>\<open>fnmatch\<close> for patterns of \<open>*\<close>, \<open>?\<close> and literal characters
    (bracket expressions are not interpreted);
  \<^item> \<open>re_match_lit\<close> is \<^verbatim>\<open>re.match\<close> for a literal text with an optional leading
    \<open>^\<close> and trailing \<open>$\<close>; any other pattern is answered as an invalid one.
\<close>

definition scheme_char :: "char \<Rightarrow> bool" where
  "scheme_char c =
     (let n = (of_char c :: nat) in
      (65 \<le> n \<and> n \<le> 90) \<or> (97 \<le> n \<and> n \<le> 122) \<or> (48 \<le> n \<and> n \<le> 57)
      \<or> c = CHR ''+'' \<or> c = CHR ''-'' \<or> c = CHR ''.'')"

definition after_scheme :: "string \<Rightarrow> string" where
  "after_scheme url =
     (let pre = takeWhile (\<lambda>c. c \<noteq> CHR '':'') url in
      if pre \<noteq> [] \<and> length pre < length url \<and> list_all scheme_char pre
         \<and> \<not> (48 \<le> (of_char (hd pre) :: nat) \<and> (of_char (hd pre) :: nat) \<le> 57)
         \<and> hd pre \<notin> set ''+-.''
      then drop (Suc (length pre)) url else url)"

definition netloc_of :: "string \<Rightarrow> string" where
  "netloc_of url =
     (let rest = after_scheme url in
      if startswith rest ''//'' then takeWhile (\<lambda>c. c \<notin> set ''/?#'') (drop 2 rest) else [])"

definition path_of :: "string \<Rightarrow> string" where
  "path_of url =
     (let rest = after_scheme url;
          tail = (if startswith rest ''//''
                  then dropWhile (\<lambda>c. c \<notin> set ''/?#'') (drop 2 rest) else rest)
      in takeWhile (\<lambda>c. c \<notin> set ''?#'') tail)"

fun glob :: "string \<Rightarrow> string \<Rightarrow> bool" where
  "glob [] [] = True"
| "glob [] (c # cs) = False"
| "glob (p # ps) [] = (p = CHR ''*'' \<and> glob ps [])"
| "glob (p # ps) (c # cs) =
     (if p = CHR ''*'' then glob ps (c # cs) \<or> glob (p # ps) cs
      else (p = CHR ''?'' \<or> p = c) \<and> glob ps cs)"

definition re_match_lit :: "string \<Rightarrow> string \<Rightarrow> bool option" where
  "re_match_lit pattern url =
     (let p1 = (if startswith pattern ''^'' then tl pattern else pattern);
          to_end = endswith p1 ''$'';
          body = (if to_end then butlast p1 else p1)
      in if list_all (\<lambda>c. scheme_char c \<and> c \<notin> set ''+.'' \<or> c \<in> set ''/:_'') body
         then Some (if to_end then url = body else startswith url body)
         else None)"

definition py :: pylib where
  "py = \<lparr> netloc = netloc_of, url_path = path_of,
          fnmatch = (\<lambda>name pat. glob pat name), re_match = re_match_lit \<rparr>"

text \<open>The schedulers of the examples: the defaults, and one with \<open>max_depth = 2\<close>.\<close>

definition sched_default :: Scheduler where
  "sched_default = Scheduler_init 1 False None"

definition sched_depth2 :: Scheduler where
  "sched_depth2 = Scheduler_init 2 False None"

definition blog_filter :: URLFilter where
  "blog_filter = URLFilter_init (Some [''*/blog/*'']) (Some [''*/private/*'']) None"

subsection \<open>An instance of the checkpoint's libraries\<close>

text \<open>
  A concrete \<open>serde\<close>, for evaluating the model on examples.
  \<^item> \<open>dumps\<close> writes a value as \<^verbatim>\<open>json.dumps\<close> does, with \<open>, \<close> and \<open>: \<close> as
    separators and every character outside the printable ASCII range escaped.
  \<^item> \<open>loads\<close> reads JSON text: objects, arrays, strings with their escapes (\<open>\u\<close> up
    to \<open>00ff\<close>), integers and the three literals. A repeated key keeps its first place
    and takes the last value, as in a Python dict. Numbers with a fraction or an exponent
    are not read.
  \<^item> \<open>Page_strict\<close> builds a page from fields of exactly the declared types and fills in
    the defaults of \<^verbatim>\<open>models.py\<close>; it does none of pydantic's conversions.
  \<^item> A set is listed in sorted order.
\<close>

definition hex_digit :: "nat \<Rightarrow> char" where
  "hex_digit n = (''0123456789abcdef'') ! (n mod 16)"

definition escape_char :: "char \<Rightarrow> string" where
  "escape_char c =
     (let n = (of_char c :: nat) in
      if c = CHR 0x22 then [CHR 0x5C, CHR 0x22]
      else if c = CHR 0x5C then [CHR 0x5C, CHR 0x5C]
      else if c = CHR 0x0A then [CHR 0x5C, CHR ''n'']
      else if c = CHR 0x0D then [CHR 0x5C, CHR ''r'']
      else if c = CHR 0x09 then [CHR 0x5C, CHR ''t'']
      else if c = CHR 0x08 then [CHR 0x5C, CHR ''b'']
      else if c = CHR 0x0C then [CHR 0x5C, CHR ''f'']
      else if n < 32 \<or> 126 < n
        then [CHR 0x5C, CHR ''u'', CHR ''0'', CHR ''0'', hex_digit (n div 16), hex_digit (n mod 16)]
      else [c])"

definition quote :: "string \<Rightarrow> string" where
  "quote s = CHR 0x22 # concat (map escape_char s) @ [CHR 0x22]"

function show_nat :: "nat \<Rightarrow> string" where
  "show_nat n =
     (if n < 10 then [char_of (48 + n)] else show_nat (n div 10) @ [char_of (48 + n mod 10)])"
  by pat_completeness auto
termination
  by (relation "measure id") auto

declare show_nat.simps [simp del]

definition show_int :: "int \<Rightarrow> string" where
  "show_int i = (if i < 0 then CHR ''-'' # show_nat (nat (- i)) else show_nat (nat i))"

fun dumps :: "json \<Rightarrow> string"
  and dumps_items :: "json list \<Rightarrow> string"
  and dumps_members :: "(string \<times> json) list \<Rightarrow> string" where
  "dumps JNull = ''null''"
| "dumps (JBool b) = (if b then ''true'' else ''false'')"
| "dumps (JInt i) = show_int i"
| "dumps (JFloat x) = x"
| "dumps (JStr s) = quote s"
| "dumps (JArr xs) = ''['' @ dumps_items xs @ '']''"
| "dumps (JObj kvs) = ''{'' @ dumps_members kvs @ ''}''"
| "dumps_items [] = []"
| "dumps_items (x # xs) = dumps x @ (if xs = [] then [] else '', '' @ dumps_items xs)"
| "dumps_members [] = []"
| "dumps_members ((k, v) # kvs) =
     quote k @ '': '' @ dumps v @ (if kvs = [] then [] else '', '' @ dumps_members kvs)"

definition json_ws :: "char \<Rightarrow> bool" where
  "json_ws c = (c \<in> set [CHR '' '', CHR 0x09, CHR 0x0A, CHR 0x0D])"

definition skip_ws :: "string \<Rightarrow> string" where
  "skip_ws s = dropWhile json_ws s"

definition hex_val :: "char \<Rightarrow> nat option" where
  "hex_val c =
     (let n = (of_char c :: nat) in
      if 48 \<le> n \<and> n \<le> 57 then Some (n - 48)
      else if 97 \<le> n \<and> n \<le> 102 then Some (n - 87)
      else if 65 \<le> n \<and> n \<le> 70 then Some (n - 55)
      else None)"

definition unescape :: "char \<Rightarrow> char option" where
  "unescape e =
     (if e = CHR 0x22 \<or> e = CHR 0x5C \<or> e = CHR ''/'' then Some e
      else if e = CHR ''n'' then Some (CHR 0x0A)
      else if e = CHR ''r'' then Some (CHR 0x0D)
      else if e = CHR ''t'' then Some (CHR 0x09)
      else if e = CHR ''b'' then Some (CHR 0x08)
      else if e = CHR ''f'' then Some (CHR 0x0C)
      else None)"

text \<open>The text after an opening quote, up to the closing one.\<close>

fun parse_str :: "nat \<Rightarrow> string \<Rightarrow> string \<Rightarrow> (string \<times> string) option" where
  "parse_str 0 acc s = None"
| "parse_str (Suc n) acc [] = None"
| "parse_str (Suc n) acc (c # cs) =
     (if c = CHR 0x22 then Some (acc, cs)
      else if c = CHR 0x5C then
        (case cs of
           [] \<Rightarrow> None
         | e # r \<Rightarrow>
            if e = CHR ''u'' then
              (case r of
                 a # b # x # y # r' \<Rightarrow>
                   (case (hex_val a, hex_val b, hex_val x, hex_val y) of
                      (Some ha, Some hb, Some h, Some l) \<Rightarrow>
                        if ha = 0 \<and> hb = 0 then parse_str n (acc @ [char_of (16 * h + l)]) r'
                        else None
                    | _ \<Rightarrow> None)
               | _ \<Rightarrow> None)
            else (case unescape e of
                    None \<Rightarrow> None
                  | Some ch \<Rightarrow> parse_str n (acc @ [ch]) r))
      else if (of_char c :: nat) < 32 then None
      else parse_str n (acc @ [c]) cs)"

definition is_digit :: "char \<Rightarrow> bool" where
  "is_digit c = (48 \<le> (of_char c :: nat) \<and> (of_char c :: nat) \<le> 57)"

definition digits_val :: "string \<Rightarrow> nat" where
  "digits_val ds = foldl (\<lambda>a c. 10 * a + ((of_char c :: nat) - 48)) 0 ds"

definition parse_number :: "string \<Rightarrow> (json \<times> string) option" where
  "parse_number s =
     (let neg = (s \<noteq> [] \<and> hd s = CHR ''-'');
          s1 = (if neg then tl s else s);
          ds = takeWhile is_digit s1;
          rest = dropWhile is_digit s1
      in if ds = [] then None
         else if rest \<noteq> [] \<and> hd rest \<in> set ''.eE'' then None
         else Some (JInt (if neg then - int (digits_val ds) else int (digits_val ds)), rest))"

text \<open>\<^verbatim>\<open>d[k] = v\<close> on a dict.\<close>

fun dict_set :: "(string \<times> json) list \<Rightarrow> string \<Rightarrow> json \<Rightarrow> (string \<times> json) list" where
  "dict_set [] k v = [(k, v)]"
| "dict_set ((k', v') # kvs) k v =
     (if k' = k then (k, v) # kvs else (k', v') # dict_set kvs k v)"

fun parse_value :: "nat \<Rightarrow> string \<Rightarrow> (json \<times> string) option"
  and parse_items :: "nat \<Rightarrow> json list \<Rightarrow> string \<Rightarrow> (json list \<times> string) option"
  and parse_members ::
    "nat \<Rightarrow> (string \<times> json) list \<Rightarrow> string \<Rightarrow> ((string \<times> json) list \<times> string) option" where
  "parse_value 0 s = None"
| "parse_value (Suc n) s =
     (case skip_ws s of
        [] \<Rightarrow> None
      | c # cs \<Rightarrow>
         if c = CHR ''{'' then
           (case skip_ws cs of
              [] \<Rightarrow> None
            | d # ds \<Rightarrow>
               if d = CHR ''}'' then Some (JObj [], ds)
               else (case parse_members n [] cs of
                       None \<Rightarrow> None
                     | Some (kvs, r) \<Rightarrow> Some (JObj kvs, r)))
         else if c = CHR ''['' then
           (case skip_ws cs of
              [] \<Rightarrow> None
            | d # ds \<Rightarrow>
               if d = CHR '']'' then Some (JArr [], ds)
               else (case parse_items n [] cs of
                       None \<Rightarrow> None
                     | Some (xs, r) \<Rightarrow> Some (JArr xs, r)))
         else if c = CHR 0x22 then
           (case parse_str (Suc (length cs)) [] cs of
              None \<Rightarrow> None
            | Some (str, r) \<Rightarrow> Some (JStr str, r))
         else if startswith (c # cs) ''true'' then Some (JBool True, drop 4 (c # cs))
         else if startswith (c # cs) ''false'' then Some (JBool False, drop 5 (c # cs))
         else if startswith (c # cs) ''null'' then Some (JNull, drop 4 (c # cs))
         else parse_number (c # cs))"
| "parse_items 0 acc s = None"
| "parse_items (Suc n) acc s =
     (case parse_value n s of
        None \<Rightarrow> None
      | Some (v, r) \<Rightarrow>
         (case skip_ws r of
            [] \<Rightarrow> None
          | c # cs \<Rightarrow>
             if c = CHR '','' then parse_items n (acc @ [v]) cs
             else if c = CHR '']'' then Some (acc @ [v], cs)
             else None))"
| "parse_members 0 acc s = None"
| "parse_members (Suc n) acc s =
     (case skip_ws s of
        [] \<Rightarrow> None
      | q # qs \<Rightarrow>
         if q \<noteq> CHR 0x22 then None
         else (case parse_str (Suc (length qs)) [] qs of
                 None \<Rightarrow> None
               | Some (k, r) \<Rightarrow>
                  (case skip_ws r of
                     [] \<Rightarrow> None
                   | c # cs \<Rightarrow>
                      if c \<noteq> CHR '':'' then None
                      else (case parse_value n cs of
                              None \<Rightarrow> None
                            | Some (v, r') \<Rightarrow>
                               (case skip_ws r' of
                                  [] \<Rightarrow> None
                                | e # es \<Rightarrow>
                                   if e = CHR '','' then parse_members n (dict_set acc k v) es
                                   else if e = CHR ''}'' then Some (dict_set acc k v, es)
                                   else None)))))"

definition loads :: "string \<Rightarrow> json option" where
  "loads s =
     (case parse_value (Suc (length s)) s of
        None \<Rightarrow> None
      | Some (v, r) \<Rightarrow> if skip_ws r = [] then Some v else None)"

fun strs_of :: "json list \<Rightarrow> string list option" where
  "strs_of [] = Some []"
| "strs_of (JStr s # xs) = (case strs_of xs of None \<Rightarrow> None | Some ss \<Rightarrow> Some (s # ss))"
| "strs_of (_ # xs) = None"

fun str_members :: "(string \<times> json) list \<Rightarrow> (string \<times> string) list option" where
  "str_members [] = Some []"
| "str_members ((k, JStr s) # kvs) =
     (case str_members kvs of None \<Rightarrow> None | Some ms \<Rightarrow> Some ((k, s) # ms))"
| "str_members (_ # kvs) = None"

definition opt_field :: "(string \<times> json) list \<Rightarrow> string \<Rightarrow> string option option" where
  "opt_field kvs k =
     (case map_of kvs k of
        None \<Rightarrow> Some None | Some JNull \<Rightarrow> Some None | Some (JStr s) \<Rightarrow> Some (Some s)
      | Some _ \<Rightarrow> None)"

definition int_field :: "(string \<times> json) list \<Rightarrow> string \<Rightarrow> int \<Rightarrow> int option" where
  "int_field kvs k dflt =
     (case map_of kvs k of None \<Rightarrow> Some dflt | Some (JInt i) \<Rightarrow> Some i | Some _ \<Rightarrow> None)"

definition links_field :: "(string \<times> json) list \<Rightarrow> string list option" where
  "links_field kvs =
     (case map_of kvs ''links'' of None \<Rightarrow> Some [] | Some (JArr xs) \<Rightarrow> strs_of xs
      | Some _ \<Rightarrow> None)"

definition metadata_field :: "(string \<times> json) list \<Rightarrow> (string \<times> string) list option" where
  "metadata_field kvs =
     (case map_of kvs ''metadata'' of None \<Rightarrow> Some [] | Some (JObj ms) \<Rightarrow> str_members ms
      | Some _ \<Rightarrow> None)"

definition crawled_field :: "string \<Rightarrow> (string \<times> json) list \<Rightarrow> string option" where
  "crawled_field now kvs =
     (case map_of kvs ''crawled_at'' of None \<Rightarrow> Some now | Some (JStr s) \<Rightarrow> Some s
      | Some _ \<Rightarrow> None)"

definition Page_strict :: "string \<Rightarrow> (string \<times> json) list \<Rightarrow> Page option" where
  "Page_strict now kvs =
     (case map_of kvs ''url'' of
        Some (JStr u) \<Rightarrow>
          (case opt_field kvs ''title'' of None \<Rightarrow> None | Some t \<Rightarrow>
           case opt_field kvs ''text'' of None \<Rightarrow> None | Some x \<Rightarrow>
           case opt_field kvs ''html'' of None \<Rightarrow> None | Some h \<Rightarrow>
           case links_field kvs of None \<Rightarrow> None | Some ls \<Rightarrow>
           case metadata_field kvs of None \<Rightarrow> None | Some md \<Rightarrow>
           case crawled_field now kvs of None \<Rightarrow> None | Some ca \<Rightarrow>
           case int_field kvs ''status_code'' 200 of None \<Rightarrow> None | Some sc \<Rightarrow>
           case int_field kvs ''depth'' 0 of None \<Rightarrow> None | Some d \<Rightarrow>
             Some \<lparr> page_url = u, page_title = t, page_text = x, page_html = h,
                    page_links = ls, page_metadata = md, page_crawled_at = ca,
                    page_status_code = sc, page_depth = d \<rparr>)
      | _ \<Rightarrow> None)"

definition pyser :: serde where
  "pyser = \<lparr> json_dumps = dumps, json_loads = loads,
             Page_validate = Page_strict ''2024-01-01T00:00:00'',
             set_list = sorted_list_of_set \<rparr>"

subsection \<open>Example data\<close>

definition example_page :: "nat \<Rightarrow> Page" where
  "example_page i =
     \<lparr> page_url = ''https://a.test/page'' @ show_nat i, page_title = Some ''Page'',
       page_text = Some ''Content'', page_html = None,
       page_links = [''https://a.test/next''], page_metadata = [(''author'', ''A'')],
       page_crawled_at = ''2024-05-05T10:00:00'', page_status_code = 200,
       page_depth = int i \<rparr>"

definition example_pages :: "Page list" where
  "example_pages = map example_page [0, 1, 2, 3, 4]"

definition fresh_manager :: CheckpointManager where
  "fresh_manager = CheckpointManager_init (LocalFileStorage_init None) 2"

text \<open>A log of two complete page lines and the first 25 characters of a third.\<close>

definition complete_log :: string where
  "complete_log = page_line pyser (example_page 0) @ page_line pyser (example_page 1)"

definition partial_line :: string where
  "partial_line = take 25 (page_line pyser (example_page 2))"

text \<open>A log file whose bytes are not UTF-8.\<close>

definition garbled_manager :: CheckpointManager where
  "garbled_manager = CheckpointManager_init (GarbledFile None) 10"

definition truncated_manager :: CheckpointManager where
  "truncated_manager =
     CheckpointManager_init (LocalFileStorage_init (Some (complete_log @ partial_line))) 10"

definition example_snapshot :: snapshot where
  "example_snapshot =
     ({''https://a.test/page0'', ''https://a.test/next''}, [(''https://a.test/next'', 1)], {},
      ''2024-05-05T10:01:00'')"

definition example_metadata :: json where
  "example_metadata = metadata_record ''https://a.test/'' CrawlConfig_default ''2024-05-05T09:59:00''"

text \<open>A site whose start page cannot be fetched, and a crawler about to fetch it.\<close>

definition failing_site :: collaborators where
  "failing_site =
     \<lparr> Fetcher_fetch = (\<lambda>url. Inl (Failure ''ClientError'')),
       Parser_parse = (\<lambda>html url. Inr \<lparr> parsed_title = None, parsed_links = [],
                                            parsed_metadata = [] \<rparr>),
       Extractor_extract = (\<lambda>html url. Inr None),
       utcnow = ''2024-05-05T10:00:00'' \<rparr>"

definition seeded_crawler :: Crawler where
  "seeded_crawler =
     (Crawler_init CrawlConfig_default None (Some fresh_manager))
       \<lparr>scheduler := add py (Scheduler_init 1 False None) ''https://a.test/'' 0\<rparr>"

text \<open>
  Two logs to resume from: one with two pages and no snapshot, read by a crawler whose
  filter excludes the start URL; and one whose snapshot queues a URL at depth 3, read by a
  crawler with the default \<open>max_depth = 1\<close>.
\<close>

definition pages_only_manager :: CheckpointManager where
  "pages_only_manager = CheckpointManager_init (LocalFileStorage_init (Some complete_log)) 10"

definition private_filter :: CombinedFilter where
  "private_filter =
     \<lparr> cf_url_filter = Some (URLFilter_init None (Some [''/private'']) None),
       cf_domain_filter = None \<rparr>"

definition filtering_crawler :: Crawler where
  "filtering_crawler = Crawler_init CrawlConfig_default (Some private_filter) (Some pages_only_manager)"

definition plain_crawler :: Crawler where
  "plain_crawler = Crawler_init CrawlConfig_default None (Some pages_only_manager)"

definition deep_snapshot :: snapshot where
  "deep_snapshot =
     ({''https://a.test/''}, [(''https://a.test/deep'', 3)], {}, ''2024-05-05T10:01:00'')"

definition deep_manager :: CheckpointManager where
  "deep_manager =
     CheckpointManager_init
       (LocalFileStorage_init (Some (json_dumps pyser (snapshot_record pyser deep_snapshot) @ [LF])))
       10"

definition shallow_crawler :: Crawler where
  "shallow_crawler = Crawler_init CrawlConfig_default None (Some deep_manager)"

section \<open>Properties of the scheduler\<close>

lemma set_start_domain_fields [simp]:
  "visited (set_start_domain L s url) = visited s"
  "filtered (set_start_domain L s url) = filtered s"
  "queue (set_start_domain L s url) = queue s"
  "max_depth (set_start_domain L s url) = max_depth s"
  "follow_external (set_start_domain L s url) = follow_external s"
  "url_filter (set_start_domain L s url) = url_filter s"
  by (simp_all add: set_start_domain_def split: option.splits)

lemma set_start_domain_value:
  "start_domain (set_start_domain L s url) =
     Some (case start_domain s of None \<Rightarrow> netloc L url | Some d \<Rightarrow> d)"
  by (simp add: set_start_domain_def split: option.splits)

lemma filter_rejects_start [simp]:
  "filter_rejects L (set_start_domain L s url) u = filter_rejects L s u"
  by (simp add: filter_rejects_def)

lemma add_config [simp]:
  "max_depth (add L s url depth) = max_depth s"
  "follow_external (add L s url depth) = follow_external s"
  "url_filter (add L s url depth) = url_filter s"
  by (simp_all add: add_def Let_def)

lemma add_start_domain:
  "start_domain (add L s url depth) =
     Some (case start_domain s of None \<Rightarrow> netloc L url | Some d \<Rightarrow> d)"
  by (simp add: add_def Let_def set_start_domain_value)

lemma add_start_domain_kept: "start_domain s = Some d \<Longrightarrow> start_domain (add L s url depth) = Some d"
  by (simp add: add_start_domain)

lemma add_visited_subset: "visited s \<subseteq> visited (add L s url depth)"
  by (auto simp: add_def Let_def)

lemma add_visited_upper: "visited (add L s url depth) \<subseteq> insert url (visited s)"
  by (auto simp: add_def Let_def)

lemma add_noop_visited:
  "url \<in> visited s \<Longrightarrow>
     queue (add L s url depth) = queue s \<and> visited (add L s url depth) = visited s
     \<and> filtered (add L s url depth) = filtered s"
  by (simp add: add_def Let_def)

lemma add_all_config [simp]:
  "max_depth (add_all L s xs) = max_depth s"
  "follow_external (add_all L s xs) = follow_external s"
  "url_filter (add_all L s xs) = url_filter s"
  by (induction L s xs rule: add_all.induct; simp)+

lemma add_all_visited_subset: "visited s \<subseteq> visited (add_all L s xs)"
proof (induction L s xs rule: add_all.induct)
  case (1 L s)
  then show ?case by simp
next
  case (2 L s url depth rest)
  then show ?case using add_visited_subset [of s L url depth] by auto
qed

lemma add_all_visited_upper: "visited (add_all L s xs) \<subseteq> visited s \<union> fst ` set xs"
proof (induction L s xs rule: add_all.induct)
  case (1 L s)
  then show ?case by simp
next
  case (2 L s url depth rest)
  then show ?case using add_visited_upper [of L s url depth] by auto
qed

lemma add_all_start_domain_kept:
  "start_domain s = Some d \<Longrightarrow> start_domain (add_all L s xs) = Some d"
  by (induction L s xs rule: add_all.induct) (simp_all add: add_start_domain_kept)

text \<open>What a run of \<open>add\<close> calls enqueues: fresh URLs only, each once.\<close>

lemma add_queue_new:
  "\<exists>new. queue (add L s url depth) = queue s @ new \<and> distinct (map fst new)
      \<and> fst ` set new \<inter> visited s = {} \<and> visited (add L s url depth) = visited s \<union> fst ` set new
      \<and> set new \<subseteq> {(url, depth)}"
proof (cases "queue (add L s url depth) = queue s @ [(url, depth)] \<and> url \<notin> visited s
     \<and> visited (add L s url depth) = insert url (visited s)")
  case True
  then show ?thesis by (intro exI [of _ "[(url, depth)]"]) auto
next
  case False
  then have "queue (add L s url depth) = queue s \<and> visited (add L s url depth) = visited s"
    by (auto simp: add_def Let_def split: if_splits)
  then show ?thesis by (intro exI [of _ "[]"]) auto
qed

lemma add_all_queue_new:
  "\<exists>new. queue (add_all L s xs) = queue s @ new \<and> distinct (map fst new)
      \<and> fst ` set new \<inter> visited s = {} \<and> visited (add_all L s xs) = visited s \<union> fst ` set new
      \<and> set new \<subseteq> set xs"
proof (induction L s xs rule: add_all.induct)
  case (1 L s)
  show ?case by (intro exI [of _ "[]"]) simp
next
  case (2 L s url depth rest)
  obtain n1 where n1: "queue (add L s url depth) = queue s @ n1" "distinct (map fst n1)"
      "fst ` set n1 \<inter> visited s = {}" "visited (add L s url depth) = visited s \<union> fst ` set n1"
      "set n1 \<subseteq> {(url, depth)}"
    using add_queue_new [of L s url depth] by blast
  obtain n2 where n2: "queue (add_all L (add L s url depth) rest) = queue (add L s url depth) @ n2"
      "distinct (map fst n2)" "fst ` set n2 \<inter> visited (add L s url depth) = {}"
      "visited (add_all L (add L s url depth) rest) = visited (add L s url depth) \<union> fst ` set n2"
      "set n2 \<subseteq> set rest"
    using "2.IH" by blast
  have d: "distinct (map fst (n1 @ n2))"
    using n1(2) n2(2) n2(3) n1(4) by auto
  have "queue (add_all L s ((url, depth) # rest)) = queue s @ (n1 @ n2)"
    using n1(1) n2(1) by simp
  moreover have "fst ` set (n1 @ n2) \<inter> visited s = {}"
    using n1(3) n2(3) n1(4) by auto
  moreover have "visited (add_all L s ((url, depth) # rest)) = visited s \<union> fst ` set (n1 @ n2)"
    using n1(4) n2(4) by auto
  moreover have "set (n1 @ n2) \<subseteq> set ((url, depth) # rest)"
    using n1(5) n2(5) by auto
  ultimately show ?case using d by blast
qed

lemma add_all_card:
  assumes "finite (visited s)"
  shows "card (visited (add_all L s xs)) \<le> card (visited s) + card (fst ` set xs)"
proof -
  have "card (visited (add_all L s xs)) \<le> card (visited s \<union> fst ` set xs)"
    using add_all_visited_upper [of L s xs] assms by (intro card_mono) auto
  also have "\<dots> \<le> card (visited s) + card (fst ` set xs)"
    by (rule card_Un_le)
  finally show ?thesis .
qed


text \<open>
  Claim C1. Every call \<open>add L s url depth\<close> first sets the start domain to the URL's
  authority when it was unset. Then, in this order and stopping at the first that applies:
  a visited URL, a depth beyond \<open>max_depth\<close>, and (when external links are not followed)
  an authority other than the start domain each leave queue, visited set and filtered set
  as they were; a URL the filter rejects is put into the filtered set and nothing is
  enqueued; any other URL is put into the visited set and \<open>(url, depth)\<close> goes to the
  back of the queue.
\<close>

theorem add_checks_in_order:
  "start_domain (add L s url depth) =
      Some (case start_domain s of None \<Rightarrow> netloc L url | Some d \<Rightarrow> d)
   \<and> (if url \<in> visited s then
         queue (add L s url depth) = queue s \<and> visited (add L s url depth) = visited s
         \<and> filtered (add L s url depth) = filtered s
       else if depth > max_depth s then
         queue (add L s url depth) = queue s \<and> visited (add L s url depth) = visited s
         \<and> filtered (add L s url depth) = filtered s
       else if \<not> follow_external s
               \<and> netloc L url \<noteq> (case start_domain s of None \<Rightarrow> netloc L url | Some d \<Rightarrow> d) then
         queue (add L s url depth) = queue s \<and> visited (add L s url depth) = visited s
         \<and> filtered (add L s url depth) = filtered s
       else if filter_rejects L s url then
         queue (add L s url depth) = queue s \<and> visited (add L s url depth) = visited s
         \<and> filtered (add L s url depth) = insert url (filtered s)
       else
         queue (add L s url depth) = queue s @ [(url, depth)]
         \<and> visited (add L s url depth) = insert url (visited s)
         \<and> filtered (add L s url depth) = filtered s)
   \<and> max_depth (add L s url depth) = max_depth s
   \<and> follow_external (add L s url depth) = follow_external s
   \<and> url_filter (add L s url depth) = url_filter s"
  by (simp add: add_def Let_def set_start_domain_value)

theorem add_checks_in_order_witness:
  "start_domain (add py sched_default ''https://example.com/a'' 1) = Some ''example.com''
   \<and> queue (add py sched_default ''https://example.com/a'' 1) = [(''https://example.com/a'', 1)]
   \<and> visited (add py sched_default ''https://example.com/a'' 1) = {''https://example.com/a''}
   \<and> filtered (add py sched_default ''https://example.com/a'' 1) = {}"
  using add_checks_in_order [of py sched_default "''https://example.com/a''" 1]
  by (simp add: sched_default_def Scheduler_init_def filter_rejects_def py_def netloc_of_def
      after_scheme_def scheme_char_def startswith_def)

text \<open>
  Claim C2. Once \<open>add\<close> has admitted a URL \<open>u\<close> (it is in the visited set after the
  call), any later \<open>add\<close> of \<open>u\<close>, at any depth and after any further \<open>add\<close> calls,
  leaves queue, visited set and filtered set unchanged. A whole run of \<open>add\<close> calls
  enqueues only URLs that were not visited before, each of them once, and the visited set
  grows by exactly these: by at most one element per distinct URL of the run.
\<close>

theorem admitted_at_most_once:
  "(u \<in> visited (add L s u d) \<longrightarrow>
      queue (add L (add_all L (add L s u d) ys) u d') = queue (add_all L (add L s u d) ys)
      \<and> visited (add L (add_all L (add L s u d) ys) u d') = visited (add_all L (add L s u d) ys)
      \<and> filtered (add L (add_all L (add L s u d) ys) u d') = filtered (add_all L (add L s u d) ys))
   \<and> (\<exists>new. queue (add_all L s xs) = queue s @ new \<and> distinct (map fst new)
         \<and> fst ` set new \<inter> visited s = {}
         \<and> visited (add_all L s xs) = visited s \<union> fst ` set new \<and> set new \<subseteq> set xs)
   \<and> (finite (visited s) \<longrightarrow>
         card (visited (add_all L s xs)) \<le> card (visited s) + card (fst ` set xs))"
proof (intro conjI impI)
  assume adm: "u \<in> visited (add L s u d)"
  let ?t = "add_all L (add L s u d) ys"
  have "u \<in> visited ?t"
    using adm add_all_visited_subset [of "add L s u d" L ys] by blast
  then have *: "queue (add L ?t u d') = queue ?t \<and> visited (add L ?t u d') = visited ?t
      \<and> filtered (add L ?t u d') = filtered ?t"
    by (rule add_noop_visited)
  show "queue (add L ?t u d') = queue ?t" using * by simp
  show "visited (add L ?t u d') = visited ?t" using * by simp
  show "filtered (add L ?t u d') = filtered ?t" using * by simp
next
  show "\<exists>new. queue (add_all L s xs) = queue s @ new \<and> distinct (map fst new)
         \<and> fst ` set new \<inter> visited s = {}
         \<and> visited (add_all L s xs) = visited s \<union> fst ` set new \<and> set new \<subseteq> set xs"
    by (rule add_all_queue_new)
next
  assume "finite (visited s)"
  then show "card (visited (add_all L s xs)) \<le> card (visited s) + card (fst ` set xs)"
    by (rule add_all_card)
qed

theorem admitted_at_most_once_witness:
  "''https://example.com'' \<in> visited (add py sched_default ''https://example.com'' 0)
   \<and> queue (add py (add_all py (add py sched_default ''https://example.com'' 0)
               [(''https://example.com/page'', 1)]) ''https://example.com'' 1)
     = [(''https://example.com'', 0), (''https://example.com/page'', 1)]
   \<and> finite (visited sched_default)
   \<and> card (visited (add_all py sched_default
        [(''https://example.com'', 0), (''https://example.com'', 0)])) \<le> 1"
proof -
  note inst = admitted_at_most_once [of "''https://example.com''" py sched_default 0
        "[(''https://example.com/page'', 1)]" 1
        "[(''https://example.com'', 0), (''https://example.com'', 0)]"]
  have v: "visited sched_default = {}"
    by (simp add: sched_default_def Scheduler_init_def)
  have a: "''https://example.com'' \<in> visited (add py sched_default ''https://example.com'' 0)"
    by (simp add: add_def Let_def set_start_domain_def sched_default_def Scheduler_init_def
        filter_rejects_def)
  have q: "queue (add_all py (add py sched_default ''https://example.com'' 0)
        [(''https://example.com/page'', 1)])
      = [(''https://example.com'', 0), (''https://example.com/page'', 1)]"
    by (simp add: add_def Let_def set_start_domain_def sched_default_def Scheduler_init_def
        filter_rejects_def py_def netloc_of_def after_scheme_def scheme_char_def startswith_def)
  have c1: "queue (add py (add_all py (add py sched_default ''https://example.com'' 0)
               [(''https://example.com/page'', 1)]) ''https://example.com'' 1)
     = queue (add_all py (add py sched_default ''https://example.com'' 0)
               [(''https://example.com/page'', 1)])"
    using inst a by blast
  have fin: "finite (visited sched_default)" by (simp add: v)
  have c3: "card (visited (add_all py sched_default
        [(''https://example.com'', 0), (''https://example.com'', 0)]))
      \<le> card (visited sched_default)
        + card (fst ` set [(''https://example.com'', 0::int), (''https://example.com'', 0)])"
    using inst fin by blast
  show ?thesis using a c1 q fin c3 by (simp add: v)
qed

lemma filter_rejects_cong: "url_filter t = url_filter s \<Longrightarrow> filter_rejects L t u = filter_rejects L s u"
  by (simp add: filter_rejects_def)

lemma add_admits:
  assumes "url \<notin> visited s" "depth \<le> max_depth s"
    and "follow_external s \<or> start_domain s = None \<or> start_domain s = Some (netloc L url)"
    and "\<not> filter_rejects L s url"
  shows "queue (add L s url depth) = queue s @ [(url, depth)]
     \<and> visited (add L s url depth) = insert url (visited s)
     \<and> filtered (add L s url depth) = filtered s"
  using assms by (auto simp: add_def Let_def set_start_domain_value split: option.splits)

text \<open>
  Claim C10. When \<open>add\<close> rejects a candidate because it is already visited, deeper than
  \<open>max_depth\<close>, or on another authority while external links are not followed, the queue,
  the visited set and the filtered set are unchanged; only the start domain is set, if it
  was unset. In particular a URL rejected for its depth is not marked visited: a later
  \<open>add\<close> of the same URL at a depth within the bound (after any \<open>add\<close> calls for other
  URLs, and when domain and filter admit it) enqueues it.
\<close>

theorem rejection_leaves_frontier:
  "((url \<in> visited s \<or> depth > max_depth s
      \<or> (\<not> follow_external s
          \<and> netloc L url \<noteq> (case start_domain s of None \<Rightarrow> netloc L url | Some d \<Rightarrow> d)))
     \<longrightarrow> queue (add L s url depth) = queue s \<and> visited (add L s url depth) = visited s
         \<and> filtered (add L s url depth) = filtered s
         \<and> start_domain (add L s url depth)
             = Some (case start_domain s of None \<Rightarrow> netloc L url | Some d \<Rightarrow> d))
   \<and> (url \<notin> visited s \<and> depth > max_depth s \<and> d2 \<le> max_depth s \<and> url \<notin> fst ` set ys
        \<and> (follow_external s
            \<or> netloc L url = (case start_domain s of None \<Rightarrow> netloc L url | Some d \<Rightarrow> d))
        \<and> \<not> filter_rejects L s url
     \<longrightarrow> url \<notin> visited (add L s url depth)
         \<and> queue (add L (add_all L (add L s url depth) ys) url d2)
             = queue (add_all L (add L s url depth) ys) @ [(url, d2)]
         \<and> visited (add L (add_all L (add L s url depth) ys) url d2)
             = insert url (visited (add_all L (add L s url depth) ys)))"
proof (intro conjI impI)
  assume "url \<in> visited s \<or> depth > max_depth s
      \<or> (\<not> follow_external s
          \<and> netloc L url \<noteq> (case start_domain s of None \<Rightarrow> netloc L url | Some d \<Rightarrow> d))"
  then show "queue (add L s url depth) = queue s" "visited (add L s url depth) = visited s"
    "filtered (add L s url depth) = filtered s"
    by (auto simp: add_def Let_def set_start_domain_value)
next
  show "start_domain (add L s url depth)
      = Some (case start_domain s of None \<Rightarrow> netloc L url | Some d \<Rightarrow> d)"
    by (rule add_start_domain)
next
  assume a: "url \<notin> visited s \<and> depth > max_depth s \<and> d2 \<le> max_depth s \<and> url \<notin> fst ` set ys
        \<and> (follow_external s
            \<or> netloc L url = (case start_domain s of None \<Rightarrow> netloc L url | Some d \<Rightarrow> d))
        \<and> \<not> filter_rejects L s url"
  let ?s1 = "add L s url depth"
  let ?t = "add_all L ?s1 ys"
  have v1: "visited ?s1 = visited s"
    using a by (simp add: add_def Let_def)
  then show "url \<notin> visited ?s1" using a by simp
  have nv: "url \<notin> visited ?t"
    using add_all_visited_upper [of L ?s1 ys] v1 a by auto
  have sd: "start_domain ?t = Some (case start_domain s of None \<Rightarrow> netloc L url | Some d \<Rightarrow> d)"
    by (rule add_all_start_domain_kept) (rule add_start_domain)
  have dom: "follow_external ?t \<or> start_domain ?t = None \<or> start_domain ?t = Some (netloc L url)"
    using a sd by auto
  have fr: "\<not> filter_rejects L ?t url"
    using a filter_rejects_cong [of ?t s L url] by simp
  have "d2 \<le> max_depth ?t" using a by simp
  from add_admits [OF nv this dom fr]
  show "queue (add L ?t url d2) = queue ?t @ [(url, d2)]"
    "visited (add L ?t url d2) = insert url (visited ?t)"
    by simp_all
qed

theorem rejection_leaves_frontier_witness:
  "''https://example.com/deep'' \<notin> visited sched_depth2 \<and> 3 > max_depth sched_depth2
   \<and> 2 \<le> max_depth sched_depth2
   \<and> queue (add py sched_depth2 ''https://example.com/deep'' 3) = []
   \<and> visited (add py sched_depth2 ''https://example.com/deep'' 3) = {}
   \<and> filtered (add py sched_depth2 ''https://example.com/deep'' 3) = {}
   \<and> start_domain (add py sched_depth2 ''https://example.com/deep'' 3) = Some ''example.com''
   \<and> queue (add py (add py sched_depth2 ''https://example.com/deep'' 3)
        ''https://example.com/deep'' 2) = [(''https://example.com/deep'', 2)]"
proof -
  note inst = rejection_leaves_frontier [of "''https://example.com/deep''" sched_depth2 3 py 2 "[]"]
  have h: "''https://example.com/deep'' \<notin> visited sched_depth2" "3 > max_depth sched_depth2"
      "2 \<le> max_depth sched_depth2" "queue sched_depth2 = []" "visited sched_depth2 = {}"
      "filtered sched_depth2 = {}" "start_domain sched_depth2 = None"
      "\<not> filter_rejects py sched_depth2 ''https://example.com/deep''"
    by (simp_all add: sched_depth2_def Scheduler_init_def filter_rejects_def)
  have n: "netloc py ''https://example.com/deep'' = ''example.com''"
    by (simp add: py_def netloc_of_def after_scheme_def scheme_char_def startswith_def)
  have r: "queue (add py sched_depth2 ''https://example.com/deep'' 3) = queue sched_depth2
     \<and> visited (add py sched_depth2 ''https://example.com/deep'' 3) = visited sched_depth2
     \<and> filtered (add py sched_depth2 ''https://example.com/deep'' 3) = filtered sched_depth2
     \<and> start_domain (add py sched_depth2 ''https://example.com/deep'' 3)
        = Some (case start_domain sched_depth2 of None \<Rightarrow> netloc py ''https://example.com/deep''
                | Some d \<Rightarrow> d)"
    using inst h(2) by blast
  have l: "queue (add py (add_all py (add py sched_depth2 ''https://example.com/deep'' 3) [])
        ''https://example.com/deep'' 2)
      = queue (add_all py (add py sched_depth2 ''https://example.com/deep'' 3) [])
        @ [(''https://example.com/deep'', 2)]"
    using inst h by (simp add: n)
  show ?thesis using r l h by (simp add: n)
qed

section \<open>Properties of the URL filter\<close>

lemma glob_star_any: "glob ''*'' s"
  by (induction s) simp_all

lemma glob_star_skip: "glob (CHR ''*'' # ps) s \<Longrightarrow> glob (CHR ''*'' # ps) (a @ s)"
  by (induction a) simp_all

lemma glob_private: "glob ''*/private/*'' (a @ ''/private/'' @ b)"
proof -
  have "glob ''*/private/*'' (''/private/'' @ b)"
    by (simp add: glob_star_any)
  then show ?thesis by (rule glob_star_skip)
qed

lemma match_private: "match_pattern py (a @ ''/private/'' @ b) ''*/private/*''"
  using glob_private [of a b] by (simp add: match_pattern_def py_def)

text \<open>
  Claim C9. \<^verbatim>\<open>URLFilter.should_crawl\<close> is false for every URL that matches one of the
  exclude patterns, whatever the include patterns are and whether or not the URL matches
  one of them. With include \<open>*/blog/*\<close> and exclude \<open>*/private/*\<close>, every URL that
  contains \<open>/blog/private/\<close> is rejected.
\<close>

theorem exclude_overrides_include:
  "(list_ex (match_pattern L url) (exclude_patterns f) \<longrightarrow> \<not> URLFilter_should_crawl L f url)
   \<and> \<not> URLFilter_should_crawl py
         (URLFilter_init (Some [''*/blog/*'']) (Some [''*/private/*'']) exts)
         (a @ ''/blog/private/'' @ b)"
proof (intro conjI impI)
  assume "list_ex (match_pattern L url) (exclude_patterns f)"
  then have "exclude_patterns f \<noteq> []" by auto
  with \<open>list_ex (match_pattern L url) (exclude_patterns f)\<close>
  show "\<not> URLFilter_should_crawl L f url"
    by (simp add: URLFilter_should_crawl_def)
next
  have "a @ ''/blog/private/'' @ b = (a @ ''/blog'') @ ''/private/'' @ b" by simp
  then have "match_pattern py (a @ ''/blog/private/'' @ b) ''*/private/*''"
    using match_private [of "a @ ''/blog''" b] by simp
  then show "\<not> URLFilter_should_crawl py
         (URLFilter_init (Some [''*/blog/*'']) (Some [''*/private/*'']) exts)
         (a @ ''/blog/private/'' @ b)"
    by (simp add: URLFilter_should_crawl_def URLFilter_init_def)
qed

theorem exclude_overrides_include_witness:
  "list_ex (match_pattern py ''https://a.test/blog/private/post'') (exclude_patterns blog_filter)
   \<and> list_ex (match_pattern py ''https://a.test/blog/private/post'') (include_patterns blog_filter)
   \<and> \<not> URLFilter_should_crawl py blog_filter ''https://a.test/blog/private/post''
   \<and> URLFilter_should_crawl py blog_filter ''https://a.test/blog/post''"
proof -
  have e: "list_ex (match_pattern py ''https://a.test/blog/private/post'')
      (exclude_patterns blog_filter)"
    by (simp add: blog_filter_def URLFilter_init_def match_pattern_def py_def)
  have i: "list_ex (match_pattern py ''https://a.test/blog/private/post'')
      (include_patterns blog_filter)"
    by (simp add: blog_filter_def URLFilter_init_def match_pattern_def py_def)
  have r: "\<not> URLFilter_should_crawl py blog_filter ''https://a.test/blog/private/post''"
    using exclude_overrides_include [of py "''https://a.test/blog/private/post''" blog_filter] e
    by blast
  have k: "URLFilter_should_crawl py blog_filter ''https://a.test/blog/post''"
    by (simp add: blog_filter_def URLFilter_init_def URLFilter_should_crawl_def
        match_pattern_def py_def)
  show ?thesis using e i r k by simp
qed

section \<open>Properties of the checkpoint log\<close>

lemma write_page_ok:
  assumes "flush_interval m \<noteq> 0"
  shows "snd (write_page S m p) = None"
    and "page_count (fst (write_page S m p)) = page_count m + 1"
    and "flush_interval (fst (write_page S m p)) = flush_interval m"
    and "calls (fst (write_page S m p)) =
           calls m @ Write (page_line S p)
             # (if (page_count m + 1) mod flush_interval m = 0 then [Flush] else [])"
  using assms
  by (simp_all add: write_page_def Let_def storage_write_def storage_flush_def page_line_def)

lemma write_pages_trace:
  assumes "flush_interval m \<noteq> 0" "page_count m = int n"
  shows "snd (write_pages S m ps) = None
     \<and> page_count (fst (write_pages S m ps)) = int (n + length ps)
     \<and> flush_interval (fst (write_pages S m ps)) = flush_interval m
     \<and> calls (fst (write_pages S m ps)) =
         calls m @ concat (map (page_calls S (flush_interval m)) (enumerate (Suc n) ps))"
  using assms
proof (induction ps arbitrary: m n)
  case Nil
  then show ?case by simp
next
  case (Cons p ps)
  let ?m1 = "fst (write_page S m p)"
  have w: "write_page S m p = (?m1, None)"
    using write_page_ok(1) [OF Cons.prems(1), of S p] by (simp add: prod_eq_iff)
  have k1: "flush_interval ?m1 \<noteq> 0" "page_count ?m1 = int (Suc n)"
    using write_page_ok(2,3) [OF Cons.prems(1), of S p] Cons.prems by simp_all
  have c1: "calls ?m1 = calls m @ page_calls S (flush_interval m) (Suc n, p)"
    using write_page_ok(4) [OF Cons.prems(1), of S p] Cons.prems(2)
    by (simp add: page_calls_def add.commute)
  have step: "write_pages S m (p # ps) = write_pages S ?m1 ps"
    by (subst write_pages.simps(2), subst w) simp
  show ?case
    unfolding step
    using Cons.IH [OF k1] c1 write_page_ok(3) [OF Cons.prems(1), of S p]
    by simp
qed

lemma flush_count_page_calls:
  assumes "0 < k"
  shows "flush_count (concat (map (page_calls S k) (enumerate (Suc n) ps)))
     = (n + length ps) div nat k - n div nat k"
proof (induction ps arbitrary: n)
  case Nil
  then show ?case by (simp add: flush_count_def)
next
  case (Cons p ps)
  have m: "(int (Suc n) mod k = 0) = (Suc n mod nat k = 0)"
  proof -
    have "int (Suc n mod nat k) = int (Suc n) mod k"
      using assms by (simp add: zmod_int)
    then show ?thesis by (metis of_nat_eq_0_iff)
  qed
  have mono: "Suc n div nat k \<le> (Suc n + length ps) div nat k"
    by (rule div_le_mono) simp
  have "flush_count (concat (map (page_calls S k) (enumerate (Suc n) (p # ps))))
      = (if Suc n mod nat k = 0 then 1 else 0)
        + flush_count (concat (map (page_calls S k) (enumerate (Suc (Suc n)) ps)))"
    using m by (simp add: flush_count_def page_calls_def)
  also have "\<dots> = (if Suc n mod nat k = 0 then 1 else 0)
        + ((Suc n + length ps) div nat k - Suc n div nat k)"
    using Cons.IH [of "Suc n"] by simp
  also have "\<dots> = (n + length (p # ps)) div nat k - n div nat k"
    using mono by (simp add: div_Suc)
  finally show ?case .
qed


text \<open>
  Claim C6. \<^verbatim>\<open>write_metadata\<close> and \<^verbatim>\<open>write_state\<close> each make two calls on the
  storage: the write of their line and, directly after it, a flush. \<^verbatim>\<open>write_page\<close>
  (for a flush interval other than 0) writes its line and flushes after it exactly when
  the new count of pages written is a multiple of the flush interval. So a run of page
  writes on a new manager with flush interval \<open>k > 0\<close> flushes after the pages numbered
  \<open>k\<close>, \<open>2k\<close>, \<open>3k\<close>, ... and nowhere else: \<open>n\<close> page writes make \<open>n div k\<close> flushes.
\<close>

theorem flush_policy:
  "calls (write_metadata S m u cfg now)
      = calls m @ [Write (json_dumps S (metadata_record u cfg now) @ [LF]), Flush]
   \<and> calls (write_state S m vis q filt now)
      = calls m @ [Write (json_dumps S (state_record S vis q filt now) @ [LF]), Flush]
   \<and> (flush_interval m \<noteq> 0 \<longrightarrow>
        snd (write_page S m p) = None
        \<and> page_count (fst (write_page S m p)) = page_count m + 1
        \<and> calls (fst (write_page S m p))
            = calls m @ Write (page_line S p)
                # (if flush_interval m dvd page_count m + 1 then [Flush] else []))
   \<and> (0 < k \<longrightarrow>
        snd (write_pages S (CheckpointManager_init st k) ps) = None
        \<and> calls (fst (write_pages S (CheckpointManager_init st k) ps))
            = concat (map (page_calls S k) (enumerate 1 ps))
        \<and> flush_count (calls (fst (write_pages S (CheckpointManager_init st k) ps)))
            = length ps div nat k)"
proof (intro conjI impI)
  show "calls (write_metadata S m u cfg now)
      = calls m @ [Write (json_dumps S (metadata_record u cfg now) @ [LF]), Flush]"
    by (simp add: write_metadata_def storage_write_def storage_flush_def)
  show "calls (write_state S m vis q filt now)
      = calls m @ [Write (json_dumps S (state_record S vis q filt now) @ [LF]), Flush]"
    by (simp add: write_state_def storage_write_def storage_flush_def)
next
  assume k: "flush_interval m \<noteq> 0"
  show "snd (write_page S m p) = None" by (rule write_page_ok(1) [OF k])
  show "page_count (fst (write_page S m p)) = page_count m + 1" by (rule write_page_ok(2) [OF k])
  show "calls (fst (write_page S m p))
            = calls m @ Write (page_line S p)
                # (if flush_interval m dvd page_count m + 1 then [Flush] else [])"
    using write_page_ok(4) [OF k, of S p] by (simp add: dvd_eq_mod_eq_0)
next
  assume k: "0 < k"
  let ?m0 = "CheckpointManager_init st k"
  have h: "flush_interval ?m0 \<noteq> 0" "page_count ?m0 = int 0" "calls ?m0 = []"
      "flush_interval ?m0 = k"
    using k by (simp_all add: CheckpointManager_init_def)
  note t = write_pages_trace [OF h(1) h(2), of S ps]
  show "snd (write_pages S ?m0 ps) = None" using t by simp
  show c: "calls (fst (write_pages S ?m0 ps)) = concat (map (page_calls S k) (enumerate 1 ps))"
    using t h(3) h(4) by simp
  show "flush_count (calls (fst (write_pages S ?m0 ps))) = length ps div nat k"
    unfolding c using flush_count_page_calls [OF k, of S 0 ps] by simp
qed

theorem flush_policy_witness:
  "flush_interval fresh_manager \<noteq> 0 \<and> (0::int) < 2
   \<and> snd (write_page pyser fresh_manager (example_page 0)) = None
   \<and> calls (fst (write_page pyser fresh_manager (example_page 0)))
       = [Write (page_line pyser (example_page 0))]
   \<and> flush_count (calls (fst (write_pages pyser fresh_manager example_pages))) = 2"
proof -
  note inst = flush_policy [of pyser fresh_manager "''u''" CrawlConfig_default "''t''" "{}" "[]" "{}"
      "example_page 0" 2 "LocalFileStorage_init None" example_pages]
  have h: "flush_interval fresh_manager \<noteq> 0" "page_count fresh_manager = 0"
      "calls fresh_manager = []" "flush_interval fresh_manager = 2"
    by (simp_all add: fresh_manager_def CheckpointManager_init_def)
  have z: "(0::int) < 2" by simp
  have a: "snd (write_page pyser fresh_manager (example_page 0)) = None
        \<and> page_count (fst (write_page pyser fresh_manager (example_page 0)))
            = page_count fresh_manager + 1
        \<and> calls (fst (write_page pyser fresh_manager (example_page 0)))
            = calls fresh_manager @ Write (page_line pyser (example_page 0))
                # (if flush_interval fresh_manager dvd page_count fresh_manager + 1
                   then [Flush] else [])"
    using inst h(1) by blast
  have b: "flush_count (calls (fst (write_pages pyser
        (CheckpointManager_init (LocalFileStorage_init None) 2) example_pages)))
      = length example_pages div nat 2"
    using inst z by blast
  show ?thesis using a b h by (simp add: fresh_manager_def example_pages_def)
qed

section \<open>Properties of replay\<close>

text \<open>One line of the loop does what the specification's replay does with its record.\<close>

lemma load_record_record_of:
  assumes "strip l \<noteq> []"
  shows "(case load_record S (strip l) acc of Inr acc' \<Rightarrow> acc' | Inl e \<Rightarrow> acc)
     = (case record_of S l of None \<Rightarrow> acc | Some e \<Rightarrow> materialize acc e)"
  using assms
  by (auto simp: load_record_def record_of_def dict_get_def
      split: option.splits json.splits sum.splits)

lemma load_lines_step:
  "load_lines S (l # rest) acc
     = load_lines S rest (case record_of S l of None \<Rightarrow> acc | Some e \<Rightarrow> materialize acc e)"
proof (cases "strip l = []")
  case True
  then show ?thesis by (simp add: record_of_def)
next
  case False
  from load_record_record_of [OF False, where S = S and acc = acc] False show ?thesis
    by (cases "load_record S (strip l) acc") (simp_all add: Let_def)
qed

lemma records_Nil: "records S [] = []"
  by (simp add: records_def)

lemma records_Cons:
  "records S (l # ls) = (case record_of S l of None \<Rightarrow> records S ls | Some e \<Rightarrow> e # records S ls)"
  by (simp add: records_def map_filter_simps split: option.splits)

lemma records_append: "records S (xs @ ys) = records S xs @ records S ys"
  by (induction xs) (simp_all add: records_Cons records_def split: option.splits)

lemma load_lines_records: "load_lines S ls acc = foldl materialize acc (records S ls)"
proof (induction ls arbitrary: acc)
  case Nil
  then show ?case by (simp add: records_def)
next
  case (Cons l ls)
  show ?case
    unfolding load_lines_step records_Cons Cons.IH
    by (simp split: option.splits)
qed

lemma load_lines_append:
  "load_lines S (xs @ ys) acc = load_lines S ys (load_lines S xs acc)"
  by (simp add: load_lines_records records_append)

lemma materialized_pages: "ld_pages (foldl materialize acc es) = ld_pages acc @ entry_pages es"
  by (induction es arbitrary: acc rule: entry_pages.induct) simp_all

lemma materialized_state:
  "ld_state (foldl materialize acc es)
     = (case last_snapshot es of None \<Rightarrow> ld_state acc | Some j \<Rightarrow> Some j)"
  by (induction es arbitrary: acc rule: last_snapshot.induct) (simp_all split: option.splits)

lemma materialized_metadata:
  "ld_metadata (foldl materialize acc es)
     = (case last_metadata es of None \<Rightarrow> ld_metadata acc | Some j \<Rightarrow> Some j)"
  by (induction es arbitrary: acc rule: last_metadata.induct) (simp_all split: option.splits)

lemma LF_not_CR [simp]: "LF \<noteq> CR" "CR \<noteq> LF"
  by (simp_all add: LF_def CR_def)

lemma line_boundary_LF_CR [simp]: "line_boundary LF" "line_boundary CR"
  by (simp_all add: line_boundary_def LF_def CR_def)

lemma split_lines_plain:
  "list_all (\<lambda>c. \<not> line_boundary c) t \<Longrightarrow>
     split_lines tm cur t = (if cur @ t = [] then [] else [cur @ t])"
proof (induction t arbitrary: cur)
  case Nil
  then show ?case by simp
next
  case (Cons c t)
  then have "c \<noteq> CR" "c \<noteq> LF" "\<not> line_boundary c" by auto
  then show ?case using Cons by simp
qed

lemma split_lines_line:
  "list_all (\<lambda>c. \<not> line_boundary c) x \<Longrightarrow>
     split_lines tm cur (x @ LF # rest) = (cur @ x @ [LF]) # split_lines tm [] rest"
proof (induction x arbitrary: cur)
  case Nil
  then show ?case by simp
next
  case (Cons c x)
  then have "c \<noteq> CR" "c \<noteq> LF" "\<not> line_boundary c" by auto
  then show ?case using Cons by simp
qed

lemma split_lines_append:
  "xs \<noteq> [] \<Longrightarrow> last xs = LF \<Longrightarrow>
     split_lines tm cur (xs @ ys) = split_lines tm cur xs @ split_lines tm [] ys"
proof (induction tm cur xs rule: split_lines.induct)
  case (1 tm cur)
  then show ?case by simp
next
  case (2 tm cur c cs)
  show ?case
  proof (cases "cs = []")
    case True
    then have "c = LF" using 2 by simp
    then show ?thesis using True by simp
  next
    case False
    then have l: "last cs = LF" using "2.prems" by simp
    show ?thesis
    proof (cases "c = CR \<and> hd cs = LF")
      case True
      show ?thesis
      proof (cases "tl cs = []")
        case True
        then have "cs = [LF]" using False \<open>c = CR \<and> hd cs = LF\<close> by (cases cs) auto
        then show ?thesis using \<open>c = CR \<and> hd cs = LF\<close> by simp
      next
        case nt: False
        then have "last (tl cs) = LF" using l False by (cases cs) auto
        then have "split_lines tm [] (tl cs @ ys) = split_lines tm [] (tl cs) @ split_lines tm [] ys"
          using "2.IH"(1) True False nt by simp
        moreover have "tl (cs @ ys) = tl cs @ ys" "hd (cs @ ys) = hd cs" using False by simp_all
        ultimately show ?thesis using True False by simp
      qed
    next
      case nc: False
      show ?thesis
      proof (cases "if tm then c = LF \<or> c = CR else line_boundary c")
        case True
        have "split_lines tm [] (cs @ ys) = split_lines tm [] cs @ split_lines tm [] ys"
          using "2.IH"(2) nc True False l by simp
        moreover have "hd (cs @ ys) = hd cs" using False by simp
        ultimately show ?thesis using nc True False by auto
      next
        case nb: False
        have "split_lines tm (cur @ [c]) (cs @ ys)
            = split_lines tm (cur @ [c]) cs @ split_lines tm [] ys"
          using "2.IH"(3) nc nb False l by simp
        moreover have "hd (cs @ ys) = hd cs" using False by simp
        ultimately show ?thesis using nc nb False by auto
      qed
    qed
  qed
qed

lemma split_lines_tail:
  assumes "body = [] \<or> last body = LF" "t \<noteq> []" "list_all (\<lambda>c. \<not> line_boundary c) t"
  shows "split_lines tm [] (body @ t) = split_lines tm [] body @ [t]"
proof (cases "body = []")
  case True
  then show ?thesis using assms split_lines_plain [of t tm "[]"] by simp
next
  case False
  then show ?thesis
    using assms split_lines_append [of body tm "[]" t] split_lines_plain [of t tm "[]"] by simp
qed

lemma st_read_stored:
  "stored st = Some c \<Longrightarrow> st_read st = Inr (split_lines (text_mode st) [] c)"
  by (cases st) auto

lemma st_exists_stored: "stored st = Some c \<Longrightarrow> st_exists st"
  by (cases st) auto

lemma st_read_decodable: "decodable st \<Longrightarrow> \<not> isl (st_read st)"
  by (cases st) auto

lemma st_read_garbled: "\<not> decodable st \<Longrightarrow> st_exists st \<and> st_read st = Inl UnicodeDecodeError"
  by (cases st) auto

lemma load_stored:
  "stored (storage m) = Some c \<Longrightarrow>
     load S m = Inr (load_lines S (split_lines (text_mode (storage m)) [] c) loaded_empty)"
  by (simp add: load_def st_exists_stored st_read_stored)

lemma load_decodable: "decodable (storage m) \<Longrightarrow> \<not> isl (load S m)"
  using st_read_decodable [of "storage m"]
  by (cases "st_read (storage m)") (auto simp: load_def)

lemma load_garbled: "\<not> decodable (storage m) \<Longrightarrow> load S m = Inl UnicodeDecodeError"
  using st_read_garbled [of "storage m"] by (simp add: load_def)

text \<open>
  Claim C4, as amended. When the storage can be read, that is, when what it holds decodes
  as UTF-8 text, \<^verbatim>\<open>load\<close> does not fail whatever the lines are, and it returns what the
  replay of the specification makes of the well-formed tagged records of the lines, in
  their order: every page record's page is in the list of pages, in the order of the
  lines, and the metadata and the snapshot are those of the last metadata record and the
  last snapshot record. A line that holds no well-formed tagged record (a blank line,
  text that is not JSON, a value that is not an object, an unknown or missing tag, a page
  record that is not a page) is skipped: with or without it the result is the same. In
  particular, when the stored text is a run of complete lines followed by a partial last
  line that holds no record, \<^verbatim>\<open>load\<close> returns the replay of the records of the complete
  lines. When the storage holds bytes that are not UTF-8, the read raises outside the
  \<^verbatim>\<open>try\<close> and \<^verbatim>\<open>load\<close> fails with that exception.
\<close>

theorem replay_skips_malformed:
  "(decodable (storage m) \<longrightarrow> \<not> isl (load S m))
   \<and> (st_exists (storage m) \<and> st_read (storage m) = Inr ls \<longrightarrow>
        load S m = Inr (replay (records S ls))
        \<and> ld_pages (projr (load S m)) = entry_pages (records S ls)
        \<and> ld_metadata (projr (load S m)) = last_metadata (records S ls)
        \<and> ld_state (projr (load S m)) = last_snapshot (records S ls))
   \<and> (record_of S l = Some e \<longrightarrow>
        records S (xs @ l # ys) = records S xs @ e # records S ys
        \<and> load_lines S (xs @ [l]) acc = materialize (load_lines S xs acc) e)
   \<and> (record_of S l = None \<longrightarrow>
        records S (xs @ l # ys) = records S (xs @ ys)
        \<and> load_lines S (xs @ l # ys) acc = load_lines S (xs @ ys) acc)
   \<and> (stored (storage m) = Some (body @ t) \<and> (body = [] \<or> last body = LF) \<and> t \<noteq> []
        \<and> list_all (\<lambda>c. \<not> line_boundary c) t \<and> record_of S t = None
      \<longrightarrow> load S m = Inr (replay (records S (split_lines (text_mode (storage m)) [] body))))
   \<and> (\<not> decodable (storage m) \<longrightarrow> load S m = Inl UnicodeDecodeError)"
proof (intro conjI impI)
  assume "decodable (storage m)"
  then show "\<not> isl (load S m)" by (rule load_decodable)
next
  assume a: "st_exists (storage m) \<and> st_read (storage m) = Inr ls"
  then show l: "load S m = Inr (replay (records S ls))"
    by (simp add: load_def replay_def load_lines_records)
  show "ld_pages (projr (load S m)) = entry_pages (records S ls)"
    unfolding l by (simp add: replay_def materialized_pages loaded_empty_def)
  show "ld_metadata (projr (load S m)) = last_metadata (records S ls)"
    unfolding l by (simp add: replay_def materialized_metadata loaded_empty_def split: option.splits)
  show "ld_state (projr (load S m)) = last_snapshot (records S ls)"
    unfolding l by (simp add: replay_def materialized_state loaded_empty_def split: option.splits)
next
  assume r: "record_of S l = Some e"
  then show "records S (xs @ l # ys) = records S xs @ e # records S ys"
    by (simp add: records_append records_Cons)
  show "load_lines S (xs @ [l]) acc = materialize (load_lines S xs acc) e"
    by (simp only: load_lines_append load_lines_step r option.case load_lines.simps(1))
next
  assume r: "record_of S l = None"
  then show n: "records S (xs @ l # ys) = records S (xs @ ys)"
    by (simp add: records_append records_Cons)
  show "load_lines S (xs @ l # ys) acc = load_lines S (xs @ ys) acc"
    unfolding load_lines_records n by simp
next
  assume a: "stored (storage m) = Some (body @ t) \<and> (body = [] \<or> last body = LF) \<and> t \<noteq> []
        \<and> list_all (\<lambda>c. \<not> line_boundary c) t \<and> record_of S t = None"
  let ?tm = "text_mode (storage m)"
  have "load S m = Inr (load_lines S (split_lines ?tm [] (body @ t)) loaded_empty)"
    using a by (simp add: load_stored)
  also have "\<dots> = Inr (load_lines S (split_lines ?tm [] body @ [t]) loaded_empty)"
    using a split_lines_tail [of body t ?tm] by simp
  also have "\<dots> = Inr (replay (records S (split_lines ?tm [] body @ [t])))"
    by (simp add: load_lines_records replay_def)
  also have "\<dots> = Inr (replay (records S (split_lines ?tm [] body)))"
    using a by (simp add: records_append records_Cons records_Nil)
  finally show "load S m = Inr (replay (records S (split_lines ?tm [] body)))" .
next
  assume "\<not> decodable (storage m)"
  then show "load S m = Inl UnicodeDecodeError" by (rule load_garbled)
qed

lemma ex_partial: "record_of pyser partial_line = None"
  by code_simp

lemma ex_plain: "list_all (\<lambda>c. \<not> line_boundary c) partial_line"
  by code_simp

lemma ex_last: "last complete_log = LF"
  by code_simp

lemma ex_nonempty: "partial_line \<noteq> []"
  by code_simp

lemma ex_records:
  "records pyser (split_lines True [] complete_log)
     = [PageRecord (example_page 0), PageRecord (example_page 1)]"
  by code_simp

theorem replay_skips_malformed_witness:
  "decodable (storage truncated_manager)
   \<and> stored (storage truncated_manager) = Some (complete_log @ partial_line)
   \<and> last complete_log = LF \<and> partial_line \<noteq> []
   \<and> list_all (\<lambda>c. \<not> line_boundary c) partial_line \<and> record_of pyser partial_line = None
   \<and> \<not> isl (load pyser truncated_manager)
   \<and> ld_pages (projr (load pyser truncated_manager)) = [example_page 0, example_page 1]
   \<and> ld_metadata (projr (load pyser truncated_manager)) = None
   \<and> ld_state (projr (load pyser truncated_manager)) = None"
proof -
  note inst = replay_skips_malformed [of truncated_manager pyser "[]" partial_line
      "PageRecord (example_page 0)" "[]" "[]" loaded_empty complete_log partial_line]
  have s: "stored (storage truncated_manager) = Some (complete_log @ partial_line)"
      "text_mode (storage truncated_manager) = True" "decodable (storage truncated_manager)"
    by (simp_all add: truncated_manager_def CheckpointManager_init_def LocalFileStorage_init_def)
  have n: "\<not> isl (load pyser truncated_manager)"
    using inst s(3) by blast
  have "load pyser truncated_manager
      = Inr (replay (records pyser (split_lines (text_mode (storage truncated_manager)) []
          complete_log)))"
    using inst s(1) ex_partial ex_plain ex_last ex_nonempty by blast
  then have l: "load pyser truncated_manager
      = Inr (replay [PageRecord (example_page 0), PageRecord (example_page 1)])"
    by (simp add: s(2) ex_records)
  show ?thesis
    using s n ex_partial ex_plain ex_last ex_nonempty
    by (simp add: l replay_def loaded_empty_def)
qed

text \<open>
  The claim as it was stated, that \<^verbatim>\<open>load\<close> never fails on malformed input, fails for
  a log file that exists and whose bytes are not UTF-8: the read raises and \<^verbatim>\<open>load\<close>
  returns nothing.
\<close>

theorem load_garbled_log_counterexample:
  "st_exists (storage garbled_manager)
   \<and> load pyser garbled_manager = Inl UnicodeDecodeError
   \<and> isl (load pyser garbled_manager)"
  by (simp add: load_def garbled_manager_def CheckpointManager_init_def)

section \<open>The round trip through the log\<close>

lemma st_write_text:
  "stored_text (st_write st d) = stored_text st" "pending (st_write st d) = pending st @ d"
  "text_mode (st_write st d) = text_mode st" "decodable (st_write st d) = decodable st"
  by (cases "(st, d)" rule: st_write.cases; simp add: stored_text_def split: option.splits)+

lemma st_flush_pending:
  assumes "pending st \<noteq> []" "decodable st"
  shows "stored (st_flush st) = Some (stored_text st @ pending st)" "pending (st_flush st) = []"
  using assms
  by (cases st rule: st_flush.cases; auto simp: stored_text_def split: option.splits)+

lemma st_flush_idle:
  assumes "stored st = Some c" "pending st = []"
  shows "stored (st_flush st) = Some c" "pending (st_flush st) = []"
  using assms by (cases st rule: st_flush.cases; auto)+

lemma st_close_idle:
  assumes "stored st = Some c" "pending st = []"
  shows "stored (st_close st) = Some c"
  using assms by (cases st rule: st_close.cases; auto)

lemma st_flush_mode [simp]: "text_mode (st_flush st) = text_mode st"
  by (cases st rule: st_flush.cases) auto

lemma st_close_mode [simp]: "text_mode (st_close st) = text_mode st"
  by (cases st rule: st_close.cases) auto

lemma st_flush_decodable [simp]: "decodable (st_flush st) = decodable st"
  by (cases st rule: st_flush.cases) auto

lemma st_flush_text:
  "decodable st \<Longrightarrow>
     stored_text (st_flush st) @ pending (st_flush st) = stored_text st @ pending st"
  by (cases st rule: st_flush.cases) (auto simp: stored_text_def split: option.splits)

lemma not_exists_fresh: "\<not> st_exists st \<Longrightarrow> stored st = None \<and> decodable st"
  by (cases st) auto

text \<open>All the text a manager has written, flushed or not.\<close>

lemma write_page_text:
  assumes "flush_interval m \<noteq> 0" "decodable (storage m)"
  shows "stored_text (storage (fst (write_page S m p))) @ pending (storage (fst (write_page S m p)))
       = stored_text (storage m) @ pending (storage m) @ page_line S p"
    and "text_mode (storage (fst (write_page S m p))) = text_mode (storage m)"
    and "decodable (storage (fst (write_page S m p)))"
  using assms st_flush_text [of "st_write (storage m) (page_line S p)"]
  by (simp_all add: write_page_def Let_def storage_write_def storage_flush_def page_line_def
      st_write_text)

lemma write_pages_text:
  assumes "flush_interval m \<noteq> 0" "decodable (storage m)"
  shows "snd (write_pages S m ps) = None
     \<and> flush_interval (fst (write_pages S m ps)) = flush_interval m
     \<and> text_mode (storage (fst (write_pages S m ps))) = text_mode (storage m)
     \<and> decodable (storage (fst (write_pages S m ps)))
     \<and> stored_text (storage (fst (write_pages S m ps))) @ pending (storage (fst (write_pages S m ps)))
       = stored_text (storage m) @ pending (storage m) @ concat (map (page_line S) ps)"
  using assms
proof (induction ps arbitrary: m)
  case Nil
  then show ?case by simp
next
  case (Cons p ps)
  let ?m1 = "fst (write_page S m p)"
  have w: "write_page S m p = (?m1, None)"
    using write_page_ok(1) [OF Cons.prems(1), of S p] by (simp add: prod_eq_iff)
  have k1: "flush_interval ?m1 \<noteq> 0" "flush_interval ?m1 = flush_interval m"
    using write_page_ok(3) [OF Cons.prems(1), of S p] Cons.prems by simp_all
  have d1: "decodable (storage ?m1)"
    by (rule write_page_text(3) [OF Cons.prems])
  have step: "write_pages S m (p # ps) = write_pages S ?m1 ps"
    by (subst write_pages.simps(2), subst w) simp
  show ?case
    unfolding step
    using Cons.IH [OF k1(1) d1] k1(2) write_page_text(1,2) [OF Cons.prems, of S p]
    by simp
qed

lemma write_line_flush:
  assumes "line \<noteq> []" "decodable (storage m)"
  shows "stored (storage (storage_flush (storage_write m line)))
       = Some (stored_text (storage m) @ pending (storage m) @ line)"
    and "pending (storage (storage_flush (storage_write m line))) = []"
    and "text_mode (storage (storage_flush (storage_write m line))) = text_mode (storage m)"
    and "flush_interval (storage_flush (storage_write m line)) = flush_interval m"
    and "decodable (storage (storage_flush (storage_write m line)))"
proof -
  have p: "pending (st_write (storage m) line) \<noteq> []"
    using assms by (simp add: st_write_text)
  have d: "decodable (st_write (storage m) line)"
    using assms by (simp add: st_write_text)
  show "stored (storage (storage_flush (storage_write m line)))
       = Some (stored_text (storage m) @ pending (storage m) @ line)"
    using st_flush_pending(1) [OF p d]
    by (simp add: storage_flush_def storage_write_def st_write_text)
  show "pending (storage (storage_flush (storage_write m line))) = []"
    using st_flush_pending(2) [OF p d] by (simp add: storage_flush_def storage_write_def)
  show "text_mode (storage (storage_flush (storage_write m line))) = text_mode (storage m)"
    by (simp add: storage_flush_def storage_write_def st_write_text)
  show "flush_interval (storage_flush (storage_write m line)) = flush_interval m"
    by (simp add: storage_flush_def storage_write_def)
  show "decodable (storage (storage_flush (storage_write m line)))"
    using d by (simp add: storage_flush_def storage_write_def)
qed

lemma stored_text_Some: "stored st = Some c \<Longrightarrow> stored_text st = c"
  by (simp add: stored_text_def)

lemma write_states_text:
  assumes "snaps \<noteq> []" "decodable (storage m)"
  shows "stored (storage (write_states S m snaps))
       = Some (stored_text (storage m) @ pending (storage m)
           @ concat (map (\<lambda>sn. json_dumps S (snapshot_record S sn) @ [LF]) snaps))
     \<and> pending (storage (write_states S m snaps)) = []
     \<and> text_mode (storage (write_states S m snaps)) = text_mode (storage m)"
  using assms
proof (induction snaps arbitrary: m)
  case Nil
  then show ?case by simp
next
  case (Cons sn rest)
  obtain vis q filt now where sn: "sn = (vis, q, filt, now)" by (cases sn) auto
  let ?line = "json_dumps S (snapshot_record S sn) @ [LF]"
  let ?m1 = "write_state S m vis q filt now"
  have m1: "?m1 = storage_flush (storage_write m ?line)"
    by (simp add: write_state_def snapshot_record_def sn)
  have l: "?line \<noteq> []" by simp
  note f = write_line_flush [OF l Cons.prems(2), folded m1]
  have step: "write_states S m (sn # rest) = write_states S ?m1 rest"
    by (simp add: sn)
  show ?case
  proof (cases "rest = []")
    case True
    then show ?thesis using f by (simp add: sn)
  next
    case False
    from Cons.IH [OF False f(5)] f show ?thesis
      unfolding step by (simp add: stored_text_Some)
  qed
qed

lemma split_lines_concat:
  "list_all (list_all (\<lambda>c. \<not> line_boundary c)) xs \<Longrightarrow>
     split_lines tm [] (concat (map (\<lambda>x. x @ [LF]) xs)) = map (\<lambda>x. x @ [LF]) xs"
  by (induction xs) (simp_all add: split_lines_line)

lemma page_dump_no_type: "filter (\<lambda>(k, v). k \<noteq> ''type'') (page_dump p) = page_dump p"
  by (simp add: page_dump_def)

lemma load_record_metadata:
  "json_loads S s = Some (metadata_record u cfg now) \<Longrightarrow>
     load_record S s acc = Inr (acc\<lparr>ld_metadata := Some (metadata_record u cfg now)\<rparr>)"
  by (simp add: load_record_def metadata_record_def dict_get_def)

lemma load_record_page:
  "json_loads S s = Some (page_record p) \<Longrightarrow> Page_validate S (page_dump p) = Some p \<Longrightarrow>
     load_record S s acc = Inr (acc\<lparr>ld_pages := ld_pages acc @ [p]\<rparr>)"
  by (simp add: load_record_def page_record_def dict_get_def page_dump_no_type)

lemma load_record_state:
  "json_loads S s = Some (snapshot_record S sn) \<Longrightarrow>
     load_record S s acc = Inr (acc\<lparr>ld_state := Some (snapshot_record S sn)\<rparr>)"
  by (cases sn) (simp add: load_record_def snapshot_record_def state_record_def dict_get_def)

lemma load_lines_metadata:
  assumes "codec_ok S (metadata_record u cfg now)"
  shows "load_lines S ((json_dumps S (metadata_record u cfg now) @ [LF]) # rest) acc
     = load_lines S rest (acc\<lparr>ld_metadata := Some (metadata_record u cfg now)\<rparr>)"
  using assms load_record_metadata [of S "strip (json_dumps S (metadata_record u cfg now) @ [LF])" u cfg now acc]
  by (simp add: codec_ok_def Let_def)

lemma load_lines_pages:
  assumes "list_all (page_ok S) ps"
  shows "load_lines S (map (page_line S) ps @ rest) acc
     = load_lines S rest (acc\<lparr>ld_pages := ld_pages acc @ ps\<rparr>)"
  using assms
proof (induction ps arbitrary: acc)
  case Nil
  then show ?case by simp
next
  case (Cons p ps)
  then have ok: "codec_ok S (page_record p)" "Page_validate S (page_dump p) = Some p"
    by (simp_all add: page_ok_def)
  have "load_record S (strip (page_line S p)) acc = Inr (acc\<lparr>ld_pages := ld_pages acc @ [p]\<rparr>)"
    using ok by (intro load_record_page) (simp_all add: codec_ok_def page_line_def)
  moreover have "strip (page_line S p) \<noteq> []"
    using ok by (simp add: codec_ok_def page_line_def)
  ultimately have "load_lines S (map (page_line S) (p # ps) @ rest) acc
      = load_lines S (map (page_line S) ps @ rest) (acc\<lparr>ld_pages := ld_pages acc @ [p]\<rparr>)"
    by (simp add: Let_def)
  then show ?case using Cons.IH [of "acc\<lparr>ld_pages := ld_pages acc @ [p]\<rparr>"] Cons.prems by simp
qed

lemma load_lines_states:
  assumes "list_all (\<lambda>sn. codec_ok S (snapshot_record S sn)) snaps" "snaps \<noteq> []"
  shows "load_lines S (map (\<lambda>sn. json_dumps S (snapshot_record S sn) @ [LF]) snaps) acc
     = acc\<lparr>ld_state := Some (snapshot_record S (last snaps))\<rparr>"
  using assms
proof (induction snaps arbitrary: acc)
  case Nil
  then show ?case by simp
next
  case (Cons sn rest)
  let ?l = "json_dumps S (snapshot_record S sn) @ [LF]"
  have ok: "strip ?l \<noteq> []" "json_loads S (strip ?l) = Some (snapshot_record S sn)"
    using Cons.prems by (simp_all add: codec_ok_def)
  have r: "load_record S (strip ?l) acc = Inr (acc\<lparr>ld_state := Some (snapshot_record S sn)\<rparr>)"
    using ok(2) by (rule load_record_state)
  have step: "load_lines S (map (\<lambda>sn. json_dumps S (snapshot_record S sn) @ [LF]) (sn # rest)) acc
      = load_lines S (map (\<lambda>sn. json_dumps S (snapshot_record S sn) @ [LF]) rest)
          (acc\<lparr>ld_state := Some (snapshot_record S sn)\<rparr>)"
    using ok(1) r by (simp add: Let_def)
  show ?case
  proof (cases "rest = []")
    case True
    then show ?thesis using step by simp
  next
    case False
    then show ?thesis
      using step Cons.IH [of "acc\<lparr>ld_state := Some (snapshot_record S sn)\<rparr>"] Cons.prems
      by simp
  qed
qed

lemma write_session_stored:
  assumes new: "\<not> st_exists st" "pending st = []" and k: "k \<noteq> 0" and sn: "snaps \<noteq> []"
  shows "snd (write_session S (CheckpointManager_init st k) u cfg now ps snaps) = None"
    and "stored (storage (fst (write_session S (CheckpointManager_init st k) u cfg now ps snaps)))
       = Some (concat (map (\<lambda>x. x @ [LF])
           (json_dumps S (metadata_record u cfg now) # map (\<lambda>p. json_dumps S (page_record p)) ps
              @ map (\<lambda>sn. json_dumps S (snapshot_record S sn)) snaps)))"
    and "pending (storage (fst (write_session S (CheckpointManager_init st k) u cfg now ps snaps))) = []"
    and "text_mode (storage (fst (write_session S (CheckpointManager_init st k) u cfg now ps snaps)))
       = text_mode st"
proof -
  let ?m0 = "CheckpointManager_init st k"
  let ?ml = "json_dumps S (metadata_record u cfg now) @ [LF]"
  let ?m1 = "write_metadata S ?m0 u cfg now"
  have m1: "?m1 = storage_flush (storage_write ?m0 ?ml)" by (simp add: write_metadata_def)
  have l: "?ml \<noteq> []" by simp
  have fresh: "stored st = None" "decodable st"
    using not_exists_fresh [OF new(1)] by simp_all
  have s0: "stored_text (storage ?m0) = []" "pending (storage ?m0) = []" "storage ?m0 = st"
      "flush_interval ?m0 = k" "decodable (storage ?m0)"
    using fresh new(2) by (simp_all add: CheckpointManager_init_def stored_text_def)
  note f = write_line_flush [OF l s0(5), folded m1]
  have k1: "flush_interval ?m1 \<noteq> 0" using f(4) s0(4) k by simp
  let ?m2 = "fst (write_pages S ?m1 ps)"
  note p = write_pages_text [OF k1 f(5), of S ps]
  obtain a b where ab: "write_pages S ?m1 ps = (a, b)" by fastforce
  have b: "b = None" "a = ?m2" using p ab by simp_all
  have ws: "write_session S ?m0 u cfg now ps snaps = (write_states S ?m2 snaps, None)"
    unfolding write_session_def ab using b by simp
  have d2: "decodable (storage ?m2)" using p by simp
  note t = write_states_text [OF sn d2, of S]
  show "snd (write_session S ?m0 u cfg now ps snaps) = None" by (simp add: ws)
  have tx: "stored_text (storage ?m2) @ pending (storage ?m2)
      = ?ml @ concat (map (page_line S) ps)"
    using p f(1) f(2) s0 by (simp add: stored_text_Some)
  have cm: "concat (map (page_line S) ps)
      = concat (map (\<lambda>x. x @ [LF]) (map (\<lambda>p. json_dumps S (page_record p)) ps))"
  proof -
    have "page_line S = (\<lambda>p. json_dumps S (page_record p) @ [LF])"
      by (rule ext) (simp add: page_line_def)
    then show ?thesis by (simp add: comp_def)
  qed
  have cs: "concat (map (\<lambda>sn. json_dumps S (snapshot_record S sn) @ [LF]) snaps)
      = concat (map (\<lambda>x. x @ [LF]) (map (\<lambda>sn. json_dumps S (snapshot_record S sn)) snaps))"
    by (simp add: comp_def)
  have "stored (storage (write_states S ?m2 snaps))
      = Some ((stored_text (storage ?m2) @ pending (storage ?m2))
          @ concat (map (\<lambda>sn. json_dumps S (snapshot_record S sn) @ [LF]) snaps))"
    using t by simp
  then show "stored (storage (fst (write_session S ?m0 u cfg now ps snaps)))
       = Some (concat (map (\<lambda>x. x @ [LF])
           (json_dumps S (metadata_record u cfg now) # map (\<lambda>p. json_dumps S (page_record p)) ps
              @ map (\<lambda>sn. json_dumps S (snapshot_record S sn)) snaps)))"
    unfolding tx cm cs by (simp add: ws)
  show "pending (storage (fst (write_session S ?m0 u cfg now ps snaps))) = []"
    using t by (simp add: ws)
  show "text_mode (storage (fst (write_session S ?m0 u cfg now ps snaps))) = text_mode st"
    using t p f(3) s0(3) by (simp add: ws)
qed

lemma load_written:
  assumes m: "stored (storage m) = Some (concat (map (\<lambda>x. x @ [LF])
           (json_dumps S (metadata_record u cfg now) # map (\<lambda>p. json_dumps S (page_record p)) ps
              @ map (\<lambda>sn. json_dumps S (snapshot_record S sn)) snaps)))"
    and sn: "snaps \<noteq> []"
    and ok: "codec_ok S (metadata_record u cfg now)" "list_all (page_ok S) ps"
      "list_all (\<lambda>sn. codec_ok S (snapshot_record S sn)) snaps"
  shows "load S m = Inr \<lparr> ld_metadata = Some (metadata_record u cfg now), ld_pages = ps,
                          ld_state = Some (snapshot_record S (last snaps)) \<rparr>"
proof -
  let ?xs = "json_dumps S (metadata_record u cfg now) # map (\<lambda>p. json_dumps S (page_record p)) ps
              @ map (\<lambda>sn. json_dumps S (snapshot_record S sn)) snaps"
  have plain: "list_all (list_all (\<lambda>c. \<not> line_boundary c)) ?xs"
    using ok by (auto simp: list_all_iff codec_ok_def page_ok_def)
  have pl: "map (\<lambda>x. x @ [LF]) (map (\<lambda>p. json_dumps S (page_record p)) ps) = map (page_line S) ps"
    by (simp add: page_line_def)
  have ls: "map (\<lambda>x. x @ [LF]) ?xs
      = (json_dumps S (metadata_record u cfg now) @ [LF])
          # (map (page_line S) ps
              @ map (\<lambda>sn. json_dumps S (snapshot_record S sn) @ [LF]) snaps)"
    using pl by (simp add: comp_def)
  have l: "load S m = Inr (load_lines S (split_lines (text_mode (storage m)) []
      (concat (map (\<lambda>x. x @ [LF]) ?xs))) loaded_empty)"
    using m by (rule load_stored)
  have "load_lines S (split_lines (text_mode (storage m)) [] (concat (map (\<lambda>x. x @ [LF]) ?xs)))
      loaded_empty = load_lines S (map (\<lambda>x. x @ [LF]) ?xs) loaded_empty"
    using split_lines_concat [OF plain] by simp
  also have "\<dots> = load_lines S (map (page_line S) ps
              @ map (\<lambda>sn. json_dumps S (snapshot_record S sn) @ [LF]) snaps)
            (loaded_empty\<lparr>ld_metadata := Some (metadata_record u cfg now)\<rparr>)"
    unfolding ls using ok(1) by (rule load_lines_metadata)
  also have "\<dots> = load_lines S (map (\<lambda>sn. json_dumps S (snapshot_record S sn) @ [LF]) snaps)
            (loaded_empty\<lparr>ld_metadata := Some (metadata_record u cfg now), ld_pages := ps\<rparr>)"
    using load_lines_pages [OF ok(2)] by (simp add: loaded_empty_def)
  also have "\<dots> = loaded_empty\<lparr>ld_metadata := Some (metadata_record u cfg now), ld_pages := ps,
      ld_state := Some (snapshot_record S (last snaps))\<rparr>"
    using load_lines_states [OF ok(3) sn] by simp
  finally show ?thesis by (simp add: l loaded_empty_def)
qed

lemma close_stored:
  assumes "stored (storage m) = Some c" "pending (storage m) = []"
  shows "stored (storage (close m)) = Some c"
  using assms st_flush_idle [of "storage m" c] st_close_idle [of "st_flush (storage m)" c]
  by (simp add: close_def storage_close_def storage_flush_def)

text \<open>
  Claim C3. On a storage that holds nothing yet (no file, no object), with a flush
  interval other than 0 (so for
  every interval of 1 or more), write one metadata record, then any pages, then one or
  more snapshots. If the JSON library reads back each written record and \<^verbatim>\<open>Page\<close>
  rebuilds each page from its dump, then no write raises and \<^verbatim>\<open>load\<close>, straight
  after the last snapshot's flush and also after \<^verbatim>\<open>close\<close>, returns: the metadata
  record as written, whose \<open>start_url\<close> is the start URL; the pages, all of them and in
  the order written; and the last snapshot written.
\<close>

theorem checkpoint_round_trip:
  assumes "\<not> st_exists st" and "pending st = []" and "k \<noteq> 0" and "snaps \<noteq> []"
    and "codec_ok S (metadata_record u cfg now)" and "list_all (page_ok S) ps"
    and "list_all (\<lambda>sn. codec_ok S (snapshot_record S sn)) snaps"
  shows "snd (write_session S (CheckpointManager_init st k) u cfg now ps snaps) = None
     \<and> load S (fst (write_session S (CheckpointManager_init st k) u cfg now ps snaps))
         = Inr \<lparr> ld_metadata = Some (metadata_record u cfg now), ld_pages = ps,
                 ld_state = Some (snapshot_record S (last snaps)) \<rparr>
     \<and> load S (close (fst (write_session S (CheckpointManager_init st k) u cfg now ps snaps)))
         = Inr \<lparr> ld_metadata = Some (metadata_record u cfg now), ld_pages = ps,
                 ld_state = Some (snapshot_record S (last snaps)) \<rparr>
     \<and> dict_get (metadata_record u cfg now) ''start_url'' = Inr (Some (JStr u))"
proof -
  let ?m = "fst (write_session S (CheckpointManager_init st k) u cfg now ps snaps)"
  note w = write_session_stored [OF assms(1) assms(2) assms(3) assms(4), of S u cfg now ps]
  have a: "load S ?m = Inr \<lparr> ld_metadata = Some (metadata_record u cfg now), ld_pages = ps,
             ld_state = Some (snapshot_record S (last snaps)) \<rparr>"
    using w(2) assms(4) assms(5) assms(6) assms(7) by (rule load_written)
  have "stored (storage (close ?m)) = Some (concat (map (\<lambda>x. x @ [LF])
           (json_dumps S (metadata_record u cfg now) # map (\<lambda>p. json_dumps S (page_record p)) ps
              @ map (\<lambda>sn. json_dumps S (snapshot_record S sn)) snaps)))"
    using w(2) w(3) by (rule close_stored)
  then have b: "load S (close ?m) = Inr \<lparr> ld_metadata = Some (metadata_record u cfg now), ld_pages = ps,
             ld_state = Some (snapshot_record S (last snaps)) \<rparr>"
    using assms(4) assms(5) assms(6) assms(7) by (rule load_written)
  have c: "dict_get (metadata_record u cfg now) ''start_url'' = Inr (Some (JStr u))"
    by (simp add: dict_get_def metadata_record_def)
  show ?thesis using w(1) a b c by simp
qed

lemma ex_meta_ok: "codec_ok pyser example_metadata"
  by code_simp

lemma ex_pages_ok: "list_all (page_ok pyser) example_pages"
  by code_simp

lemma ex_snap_ok: "list_all (\<lambda>sn. codec_ok pyser (snapshot_record pyser sn)) [example_snapshot]"
  by code_simp

theorem checkpoint_round_trip_witness:
  "\<not> st_exists (LocalFileStorage_init None) \<and> pending (LocalFileStorage_init None) = []
   \<and> (2::int) \<noteq> 0 \<and> [example_snapshot] \<noteq> []
   \<and> codec_ok pyser example_metadata \<and> list_all (page_ok pyser) example_pages
   \<and> list_all (\<lambda>sn. codec_ok pyser (snapshot_record pyser sn)) [example_snapshot]
   \<and> load pyser (fst (write_session pyser fresh_manager ''https://a.test/''
          CrawlConfig_default ''2024-05-05T09:59:00'' example_pages [example_snapshot]))
       = Inr \<lparr> ld_metadata = Some example_metadata, ld_pages = example_pages,
               ld_state = Some (snapshot_record pyser example_snapshot) \<rparr>
   \<and> length example_pages = 5"
proof -
  have f: "\<not> st_exists (LocalFileStorage_init None)" "pending (LocalFileStorage_init None) = []"
    by (simp_all add: LocalFileStorage_init_def)
  have k: "(2::int) \<noteq> 0" by simp
  have s: "[example_snapshot] \<noteq> []" by simp
  have mo: "codec_ok pyser (metadata_record ''https://a.test/'' CrawlConfig_default
      ''2024-05-05T09:59:00'')"
    using ex_meta_ok by (simp add: example_metadata_def)
  note r = checkpoint_round_trip [OF f(1) f(2) k s mo ex_pages_ok ex_snap_ok]
  show ?thesis
    using r f ex_meta_ok ex_pages_ok ex_snap_ok
    by (simp add: fresh_manager_def example_metadata_def example_pages_def)
qed

section \<open>Properties of the worker\<close>

lemma process_item_failure:
  "stage_failure E c url = Some e \<Longrightarrow> process_item E L S c url d = log_error c url e"
  by (auto simp: stage_failure_def process_item_def split: sum.splits prod.splits if_splits)

lemma stage_failure_scheduler [simp]:
  "stage_failure E (c\<lparr>scheduler := s\<rparr>) url = stage_failure E c url"
  by (simp add: stage_failure_def split: sum.splits prod.splits)

text \<open>
  Claim C8. When the worker pops \<open>(url, d)\<close> and fetching, parsing or extracting raises
  for that URL, the turn of the loop ends normally and the loop goes on: the exception is
  recorded as a \<^verbatim>\<open>crawl_error\<close> and reaches no caller. The results list and the
  checkpoint manager (and so the log) are as before, the visited and filtered sets are as
  before, and the queue has lost the popped entry and gained nothing: none of the page's
  links were added. The worker's next turn starts from that state, as does the turn of
  any other worker on the shared crawler.
\<close>

theorem failure_is_isolated:
  assumes "stage_failure E c url = Some e"
    and "queue (scheduler c) = (url, d) # rest"
    and "int (length (pages c)) < cfg_max_pages (config c)"
  shows "worker_step E L S c
       = (True, c\<lparr>scheduler := (scheduler c)\<lparr>queue := rest\<rparr>,
                   crawl_errors := crawl_errors c @ [(url, e)]\<rparr>)
     \<and> pages (snd (worker_step E L S c)) = pages c
     \<and> checkpoint_manager (snd (worker_step E L S c)) = checkpoint_manager c
     \<and> queue (scheduler (snd (worker_step E L S c))) = rest
     \<and> visited (scheduler (snd (worker_step E L S c))) = visited (scheduler c)
     \<and> filtered (scheduler (snd (worker_step E L S c))) = filtered (scheduler c)
     \<and> worker E L S (Suc n) c = worker E L S n (snd (worker_step E L S c))"
proof -
  let ?c1 = "c\<lparr>scheduler := (scheduler c)\<lparr>queue := rest\<rparr>\<rparr>"
  have g: "get (scheduler c) = (Some (url, d), (scheduler c)\<lparr>queue := rest\<rparr>)"
    using assms(2) by (simp add: get_def)
  have p: "process_item E L S ?c1 url d = log_error ?c1 url e"
    using assms(1) by (intro process_item_failure) simp
  have w: "worker_step E L S c
       = (True, c\<lparr>scheduler := (scheduler c)\<lparr>queue := rest\<rparr>,
                   crawl_errors := crawl_errors c @ [(url, e)]\<rparr>)"
    using assms(3) g p by (simp add: worker_step_def log_error_def)
  show ?thesis by (simp add: w)
qed

theorem failure_is_isolated_witness:
  "stage_failure failing_site seeded_crawler ''https://a.test/'' = Some (Failure ''ClientError'')
   \<and> queue (scheduler seeded_crawler) = [(''https://a.test/'', 0)]
   \<and> int (length (pages seeded_crawler)) < cfg_max_pages (config seeded_crawler)
   \<and> fst (worker_step failing_site py pyser seeded_crawler) = True
   \<and> pages (snd (worker_step failing_site py pyser seeded_crawler)) = []
   \<and> checkpoint_manager (snd (worker_step failing_site py pyser seeded_crawler)) = Some fresh_manager
   \<and> queue (scheduler (snd (worker_step failing_site py pyser seeded_crawler))) = []
   \<and> crawl_errors (snd (worker_step failing_site py pyser seeded_crawler))
       = [(''https://a.test/'', Failure ''ClientError'')]"
proof -
  have a: "stage_failure failing_site seeded_crawler ''https://a.test/'' = Some (Failure ''ClientError'')"
    by (simp add: stage_failure_def failing_site_def)
  have b: "queue (scheduler seeded_crawler) = (''https://a.test/'', 0) # []"
    by (simp add: seeded_crawler_def Crawler_init_def Scheduler_init_def add_def Let_def
        set_start_domain_def filter_rejects_def)
  have c: "int (length (pages seeded_crawler)) < cfg_max_pages (config seeded_crawler)"
    by (simp add: seeded_crawler_def Crawler_init_def CrawlConfig_default_def)
  have d: "pages seeded_crawler = []" "checkpoint_manager seeded_crawler = Some fresh_manager"
      "crawl_errors seeded_crawler = []"
    by (simp_all add: seeded_crawler_def Crawler_init_def)
  show ?thesis
    using failure_is_isolated [OF a b c, of py pyser 0] a b c d by simp
qed

section \<open>Properties of resuming\<close>

lemma resume_no_state:
  "load S m = Inr data \<Longrightarrow> ld_state data = None \<Longrightarrow>
     resume_from_checkpoint L S c m start_url
       = Inr (c\<lparr>pages := ld_pages data,
                 scheduler := add L (scheduler c) start_url 0\<rparr>)"
  by (simp add: resume_from_checkpoint_def Let_def)

lemma seed_fresh_scheduler:
  assumes "0 \<le> md"
  shows "add L (Scheduler_init md fe uf) start_url 0
     = (if filter_rejects L (Scheduler_init md fe uf) start_url
        then (Scheduler_init md fe uf)\<lparr>start_domain := Some (netloc L start_url),
               filtered := {start_url}\<rparr>
        else (Scheduler_init md fe uf)\<lparr>start_domain := Some (netloc L start_url),
               visited := {start_url}, queue := [(start_url, 0)]\<rparr>)"
  using assms
  by (simp add: add_def Let_def set_start_domain_def Scheduler_init_def filter_rejects_def)

text \<open>
  Claim C7, as amended. A new crawler resumes from a log that has no snapshot. The
  replayed pages become the results list, and the scheduler, whose visited set is empty,
  is seeded with the start URL at depth 0. Afterwards, when the URL filter (if there is
  one) accepts the start URL, the visited set is exactly the start URL and the queue holds
  it at depth 0; when the filter rejects the start URL, the visited set and the queue are
  empty and the start URL is in the filtered set. In both cases no restored page with
  another URL is in the visited set, so none of them is excluded from being crawled again.
\<close>

theorem resume_without_snapshot:
  assumes "load S m = Inr data" and "ld_state data = None" and "CrawlConfig_valid cfg"
  shows "\<not> isl (resume_from_checkpoint L S (Crawler_init cfg uf (Some m)) m start_url)
     \<and> pages (projr (resume_from_checkpoint L S (Crawler_init cfg uf (Some m)) m start_url))
         = ld_pages data
     \<and> (if filter_rejects L (Scheduler_init (cfg_max_depth cfg) (cfg_follow_external cfg) uf) start_url
        then visited (scheduler (projr (resume_from_checkpoint L S (Crawler_init cfg uf (Some m)) m start_url))) = {}
           \<and> filtered (scheduler (projr (resume_from_checkpoint L S (Crawler_init cfg uf (Some m)) m start_url))) = {start_url}
           \<and> queue (scheduler (projr (resume_from_checkpoint L S (Crawler_init cfg uf (Some m)) m start_url))) = []
        else visited (scheduler (projr (resume_from_checkpoint L S (Crawler_init cfg uf (Some m)) m start_url))) = {start_url}
           \<and> filtered (scheduler (projr (resume_from_checkpoint L S (Crawler_init cfg uf (Some m)) m start_url))) = {}
           \<and> queue (scheduler (projr (resume_from_checkpoint L S (Crawler_init cfg uf (Some m)) m start_url))) = [(start_url, 0)])
     \<and> (\<forall>p \<in> set (ld_pages data). page_url p \<noteq> start_url \<longrightarrow>
           page_url p \<notin> visited (scheduler (projr (resume_from_checkpoint L S (Crawler_init cfg uf (Some m)) m start_url))))"
proof -
  let ?c = "Crawler_init cfg uf (Some m)"
  let ?s0 = "Scheduler_init (cfg_max_depth cfg) (cfg_follow_external cfg) uf"
  have md: "0 \<le> cfg_max_depth cfg" using assms(3) by (simp add: CrawlConfig_valid_def)
  have r: "resume_from_checkpoint L S ?c m start_url
      = Inr (?c\<lparr>pages := ld_pages data, scheduler := add L ?s0 start_url 0\<rparr>)"
    using resume_no_state [OF assms(1) assms(2), of L ?c start_url] by (simp add: Crawler_init_def)
  show ?thesis
    unfolding r seed_fresh_scheduler [OF md]
    by (simp add: Scheduler_init_def)
qed

lemma ex_pages_only:
  "load pyser pages_only_manager
     = Inr \<lparr> ld_metadata = None, ld_pages = [example_page 0, example_page 1], ld_state = None \<rparr>"
  by code_simp

theorem resume_without_snapshot_witness:
  "load pyser pages_only_manager
     = Inr \<lparr> ld_metadata = None, ld_pages = [example_page 0, example_page 1], ld_state = None \<rparr>
   \<and> CrawlConfig_valid CrawlConfig_default
   \<and> pages (projr (resume_from_checkpoint py pyser plain_crawler pages_only_manager ''https://a.test/''))
       = [example_page 0, example_page 1]
   \<and> visited (scheduler (projr (resume_from_checkpoint py pyser plain_crawler pages_only_manager
        ''https://a.test/''))) = {''https://a.test/''}
   \<and> queue (scheduler (projr (resume_from_checkpoint py pyser plain_crawler pages_only_manager
        ''https://a.test/''))) = [(''https://a.test/'', 0)]"
proof -
  have v: "CrawlConfig_valid CrawlConfig_default"
    by (simp add: CrawlConfig_valid_def CrawlConfig_default_def)
  have f: "\<not> filter_rejects py (Scheduler_init (cfg_max_depth CrawlConfig_default)
      (cfg_follow_external CrawlConfig_default) None) ''https://a.test/''"
    by (simp add: filter_rejects_def Scheduler_init_def)
  have n: "ld_state \<lparr> ld_metadata = None, ld_pages = [example_page 0, example_page 1],
      ld_state = None \<rparr> = None"
    by simp
  show ?thesis
    using resume_without_snapshot [OF ex_pages_only n v, of py None "''https://a.test/''"]
      f v ex_pages_only
    by (simp add: plain_crawler_def)
qed

text \<open>
  The claim as it was stated, that the visited set then holds the start URL, fails for a
  crawler whose filter excludes the start URL: the visited set stays empty.
\<close>

theorem resume_filtered_start_counterexample:
  "load pyser pages_only_manager
     = Inr \<lparr> ld_metadata = None, ld_pages = [example_page 0, example_page 1], ld_state = None \<rparr>
   \<and> \<not> isl (resume_from_checkpoint py pyser filtering_crawler pages_only_manager
         ''https://a.test/private'')
   \<and> visited (scheduler (projr (resume_from_checkpoint py pyser filtering_crawler
         pages_only_manager ''https://a.test/private''))) = {}
   \<and> ''https://a.test/private'' \<notin> visited (scheduler (projr (resume_from_checkpoint py pyser
         filtering_crawler pages_only_manager ''https://a.test/private'')))
   \<and> filtered (scheduler (projr (resume_from_checkpoint py pyser filtering_crawler
         pages_only_manager ''https://a.test/private''))) = {''https://a.test/private''}"
  by code_simp

section \<open>The depth bound\<close>

lemma add_within_depth: "queue_within_depth s \<Longrightarrow> queue_within_depth (add L s url depth)"
  by (auto simp: queue_within_depth_def add_def Let_def)

lemma add_all_within_depth: "queue_within_depth s \<Longrightarrow> queue_within_depth (add_all L s xs)"
  by (induction L s xs rule: add_all.induct) (simp_all add: add_within_depth)

lemma get_within_depth: "queue_within_depth s \<Longrightarrow> queue_within_depth (snd (get s))"
  by (auto simp: queue_within_depth_def get_def split: list.splits)

lemma restore_state_queue:
  assumes "restore_state L S c st = Inr c'"
  shows "queue (scheduler c') = queue (scheduler c) @ snapshot_queue st"
    and "max_depth (scheduler c') = max_depth (scheduler c)"
  using assms
  by (auto simp: restore_state_def snapshot_queue_def Let_def
      split: sum.splits list.splits if_splits prod.splits)

text \<open>
  Claim C5, as amended. A new scheduler's queue is within the depth bound, and \<open>add\<close>
  (one call or a run of them) and \<open>get\<close> keep it so: \<open>add\<close> leaves the queue alone for
  a depth beyond \<open>max_depth\<close> and enqueues a candidate at depth \<open>max_depth\<close> that passes
  the other checks. The one other place that puts entries into the queue is the restoring
  of a snapshot on resume: it appends the snapshot's queue entries as they were saved,
  without the depth check, so the queue is within the bound afterwards exactly when it was
  before and every restored entry is within the crawler's own \<open>max_depth\<close>.
\<close>

theorem depth_bound_of_queue:
  "queue_within_depth (Scheduler_init md fe uf)
   \<and> (queue_within_depth s \<longrightarrow>
        queue_within_depth (add L s url depth) \<and> queue_within_depth (add_all L s xs)
        \<and> queue_within_depth (snd (get s)))
   \<and> (depth > max_depth s \<longrightarrow> queue (add L s url depth) = queue s)
   \<and> (url \<notin> visited s \<and> depth = max_depth s
        \<and> (follow_external s
            \<or> netloc L url = (case start_domain s of None \<Rightarrow> netloc L url | Some d \<Rightarrow> d))
        \<and> \<not> filter_rejects L s url
      \<longrightarrow> queue (add L s url depth) = queue s @ [(url, depth)])
   \<and> (\<not> isl (restore_state L S c st) \<longrightarrow>
        queue (scheduler (projr (restore_state L S c st))) = queue (scheduler c) @ snapshot_queue st
        \<and> max_depth (scheduler (projr (restore_state L S c st))) = max_depth (scheduler c)
        \<and> queue_within_depth (scheduler (projr (restore_state L S c st)))
            = (queue_within_depth (scheduler c)
               \<and> list_all (\<lambda>(u, d). d \<le> max_depth (scheduler c)) (snapshot_queue st)))"
proof (intro conjI impI)
  show "queue_within_depth (Scheduler_init md fe uf)"
    by (simp add: queue_within_depth_def Scheduler_init_def)
next
  assume "queue_within_depth s"
  then show "queue_within_depth (add L s url depth)" "queue_within_depth (add_all L s xs)"
    "queue_within_depth (snd (get s))"
    by (simp_all add: add_within_depth add_all_within_depth get_within_depth)
next
  assume "depth > max_depth s"
  then show "queue (add L s url depth) = queue s"
    by (simp add: add_def Let_def)
next
  assume a: "url \<notin> visited s \<and> depth = max_depth s
        \<and> (follow_external s
            \<or> netloc L url = (case start_domain s of None \<Rightarrow> netloc L url | Some d \<Rightarrow> d))
        \<and> \<not> filter_rejects L s url"
  then have "follow_external s \<or> start_domain s = None \<or> start_domain s = Some (netloc L url)"
    by (auto split: option.splits)
  with a show "queue (add L s url depth) = queue s @ [(url, depth)]"
    using add_admits [of url s depth L] by simp
next
  assume "\<not> isl (restore_state L S c st)"
  then obtain c' where r: "restore_state L S c st = Inr c'"
    by (cases "restore_state L S c st") auto
  note q = restore_state_queue [OF r]
  show "queue (scheduler (projr (restore_state L S c st))) = queue (scheduler c) @ snapshot_queue st"
    using q by (simp add: r)
  show "max_depth (scheduler (projr (restore_state L S c st))) = max_depth (scheduler c)"
    using q by (simp add: r)
  show "queue_within_depth (scheduler (projr (restore_state L S c st)))
            = (queue_within_depth (scheduler c)
               \<and> list_all (\<lambda>(u, d). d \<le> max_depth (scheduler c)) (snapshot_queue st))"
    using q by (simp add: r queue_within_depth_def)
qed

lemma ex_restores: "\<not> isl (restore_state py pyser shallow_crawler (snapshot_record pyser deep_snapshot))"
  by code_simp

lemma ex_deep_queue: "snapshot_queue (snapshot_record pyser deep_snapshot) = [(''https://a.test/deep'', 3)]"
  by code_simp

theorem depth_bound_of_queue_witness:
  "queue_within_depth sched_depth2 \<and> (3::int) > max_depth sched_depth2
   \<and> ''https://example.com/p'' \<notin> visited sched_depth2 \<and> (2::int) = max_depth sched_depth2
   \<and> \<not> filter_rejects py sched_depth2 ''https://example.com/p''
   \<and> queue (add py sched_depth2 ''https://example.com/p'' 3) = []
   \<and> queue (add py sched_depth2 ''https://example.com/p'' 2) = [(''https://example.com/p'', 2)]
   \<and> queue_within_depth (add py sched_depth2 ''https://example.com/p'' 2)
   \<and> \<not> isl (restore_state py pyser shallow_crawler (snapshot_record pyser deep_snapshot))
   \<and> queue (scheduler (projr (restore_state py pyser shallow_crawler
         (snapshot_record pyser deep_snapshot)))) = [(''https://a.test/deep'', 3)]
   \<and> \<not> queue_within_depth (scheduler (projr (restore_state py pyser shallow_crawler
         (snapshot_record pyser deep_snapshot))))"
proof -
  note inst = depth_bound_of_queue [of 2 False None sched_depth2 py "''https://example.com/p''" 3
      "[]" pyser shallow_crawler "snapshot_record pyser deep_snapshot"]
  note inst2 = depth_bound_of_queue [of 2 False None sched_depth2 py "''https://example.com/p''" 2
      "[]" pyser shallow_crawler "snapshot_record pyser deep_snapshot"]
  have h: "queue sched_depth2 = []" "max_depth sched_depth2 = 2" "visited sched_depth2 = {}"
      "start_domain sched_depth2 = None"
      "\<not> filter_rejects py sched_depth2 ''https://example.com/p''"
    by (simp_all add: sched_depth2_def Scheduler_init_def filter_rejects_def)
  have i: "queue_within_depth sched_depth2"
    using inst by (simp add: sched_depth2_def)
  have c: "queue (scheduler shallow_crawler) = []" "max_depth (scheduler shallow_crawler) = 1"
    by (simp_all add: shallow_crawler_def Crawler_init_def Scheduler_init_def
        CrawlConfig_default_def)
  have r3: "queue (add py sched_depth2 ''https://example.com/p'' 3) = queue sched_depth2"
    using inst h(2) by simp
  have r2: "queue (add py sched_depth2 ''https://example.com/p'' 2)
      = queue sched_depth2 @ [(''https://example.com/p'', 2)]"
    using inst2 h by simp
  have w2: "queue_within_depth (add py sched_depth2 ''https://example.com/p'' 2)"
    using inst2 i by blast
  have q: "queue (scheduler (projr (restore_state py pyser shallow_crawler
         (snapshot_record pyser deep_snapshot))))
       = queue (scheduler shallow_crawler) @ snapshot_queue (snapshot_record pyser deep_snapshot)"
     and b: "queue_within_depth (scheduler (projr (restore_state py pyser shallow_crawler
         (snapshot_record pyser deep_snapshot))))
       = (queue_within_depth (scheduler shallow_crawler)
           \<and> list_all (\<lambda>(u, d). d \<le> max_depth (scheduler shallow_crawler))
                (snapshot_queue (snapshot_record pyser deep_snapshot)))"
    using inst ex_restores by blast+
  show ?thesis
    using i h r3 r2 w2 ex_restores q b c ex_deep_queue by simp
qed

text \<open>
  The claim as it was stated, that no queue entry is ever deeper than \<open>max_depth\<close>,
  fails when a crawler with \<open>max_depth = 1\<close> resumes from a snapshot that queued a URL
  at depth 3.
\<close>

theorem resume_deep_queue_counterexample:
  "\<not> isl (resume_from_checkpoint py pyser shallow_crawler deep_manager ''https://a.test/'')
   \<and> max_depth (scheduler (projr (resume_from_checkpoint py pyser shallow_crawler deep_manager
         ''https://a.test/''))) = 1
   \<and> queue (scheduler (projr (resume_from_checkpoint py pyser shallow_crawler deep_manager
         ''https://a.test/''))) = [(''https://a.test/deep'', 3)]
   \<and> \<not> queue_within_depth (scheduler (projr (resume_from_checkpoint py pyser shallow_crawler
         deep_manager ''https://a.test/'')))"
  by code_simp

end
